theory Spec2Isabelle
  imports
    Complex_Main
    "HOL-Library.Char_ord"
    "HOL-Library.List_Lexorder"
    "HOL-Library.Product_Lexorder"
    "HOL-Library.Multiset"
begin

section \<open>Python values shared by the functions of \<^verbatim>\<open>mutatex/utils.py\<close>\<close>

text \<open>
  Every \<^verbatim>\<open>raise\<close> of the module is a value of \<open>error\<close>; a function that may raise
  returns \<open>error + 'a\<close> with \<open>Inl\<close> for the exception. Calls of the \<^verbatim>\<open>logging\<close> module
  are recorded by their level only, in call order.
\<close>

datatype error =
  IOError | TypeError | ValueError | IndexError | KeyError | AxisError | ZeroDivisionError

datatype loglevel = LogInfo | LogWarning | LogError

text \<open>
  \<^verbatim>\<open>str.isspace\<close> on the code points below 256: TAB, LF, VT, FF, CR, the four
  separators FS..US, SPACE, NEL and NBSP.
\<close>

definition isspace :: "char \<Rightarrow> bool" where
  "isspace c = (of_char c \<in> {9, 10, 11, 12, 13, 28, 29, 30, 31, 32, 133, 160 :: nat})"

text \<open>\<^verbatim>\<open>str.strip()\<close>: leading and trailing whitespace removed.\<close>

definition strip :: "string \<Rightarrow> string" where
  "strip s = rev (dropWhile isspace (rev (dropWhile isspace s)))"

text \<open>\<^verbatim>\<open>s.startswith(p)\<close>.\<close>

definition startswith :: "string \<Rightarrow> string \<Rightarrow> bool" where
  "startswith s p = (take (length p) s = p)"

section \<open>\<^verbatim>\<open>parse_mutlist_file\<close>\<close>

text \<open>
  The keys of \<^verbatim>\<open>Bio.PDB.Polypeptide.d1_to_index\<close>: the twenty one-letter codes of
  the library's \<^verbatim>\<open>aa1\<close> string.
\<close>

definition d1_to_index_keys :: "string" where
  "d1_to_index_keys = ''ACDEFGHIKLMNPQRSTVWY''"

text \<open>
  The \<^verbatim>\<open>for line in fh\<close> loop. \<open>restypes\<close> is the list built so far, \<open>lg\<close> the log so
  far. A line is skipped when it is empty, starts with \<^verbatim>\<open>#\<close> (tested on the
  unstripped line) or strips to nothing; otherwise the first character of the
  stripped line is the code, with a warning when more characters follow.
\<close>

fun mutlist_loop :: "string list \<Rightarrow> string \<Rightarrow> loglevel list \<Rightarrow> (error + string) \<times> loglevel list" where
  "mutlist_loop [] restypes lg = (Inr restypes, lg)"
| "mutlist_loop (line # rest) restypes lg =
     (if line \<noteq> [] \<and> \<not> startswith line ''#'' then
        (case strip line of
           [] \<Rightarrow> mutlist_loop rest restypes lg
         | mtype # more \<Rightarrow>
             (let lg' = (if length (mtype # more) > 1 then lg @ [LogWarning] else lg)
              in if mtype \<notin> set d1_to_index_keys then (Inl TypeError, lg' @ [LogError])
                 else mutlist_loop rest (restypes @ [mtype]) lg'))
      else mutlist_loop rest restypes lg)"

text \<open>
  The file is given as the list of its lines (\<open>None\<close> when \<^verbatim>\<open>open\<close> raises). The
  result is the list of one-character codes, written as a string.
\<close>

definition parse_mutlist_file :: "string list option \<Rightarrow> (error + string) \<times> loglevel list" where
  "parse_mutlist_file fh =
     (case fh of
        None \<Rightarrow> (Inl IOError, [LogError])
      | Some lines \<Rightarrow>
          (case mutlist_loop lines [] [] of
             (Inl e, lg) \<Rightarrow> (Inl e, lg)
           | (Inr restypes, lg) \<Rightarrow>
               if length (remdups restypes) \<noteq> length restypes then (Inl TypeError, lg @ [LogError])
               else if length restypes = 0 then (Inr restypes, lg @ [LogError])
               else (Inr restypes, lg)))"

text \<open>
  The codes a file yields, read off the loop: one per line that is non-empty, not a
  comment and not blank, namely the first character of the stripped line.
\<close>

definition mutlist_codes :: "string list \<Rightarrow> string" where
  "mutlist_codes lines =
     map (\<lambda>l. hd (strip l)) (filter (\<lambda>l. l \<noteq> [] \<and> \<not> startswith l ''#'' \<and> strip l \<noteq> []) lines)"

section \<open>\<^verbatim>\<open>parse_poslist_file\<close>\<close>

text \<open>The regex classes \<^verbatim>\<open>[A-Z]\<close> and \<^verbatim>\<open>[0-9]\<close> (ASCII only, as in Python 3).\<close>

definition is_AZ :: "char \<Rightarrow> bool" where
  "is_AZ c = (CHR ''A'' \<le> c \<and> c \<le> CHR ''Z'')"

definition is_09 :: "char \<Rightarrow> bool" where
  "is_09 c = (CHR ''0'' \<le> c \<and> c \<le> CHR ''9'')"

text \<open>
  \<^verbatim>\<open>str.isdigit\<close> on the code points below 256: the ASCII digits and the
  superscripts two, three and one.
\<close>

definition str_isdigit :: "char \<Rightarrow> bool" where
  "str_isdigit c = (is_09 c \<or> of_char c \<in> {178, 179, 185 :: nat})"

text \<open>
  \<^verbatim>\<open>re.compile('(([A-Z]?[A-Z][0-9]+)_?)+').fullmatch\<close> as the automaton of the
  expression. \<open>Start\<close>: nothing read; \<open>Letter1\<close>: one letter of a token read;
  \<open>Letter2\<close>: two letters read; \<open>Digits\<close>: at least one digit of the token read;
  \<open>Under\<close>: the optional underscore after a token read. A full match ends in
  \<open>Digits\<close> or \<open>Under\<close>.
\<close>

datatype re_state = Start | Letter1 | Letter2 | Digits | Under

fun re_step :: "re_state \<Rightarrow> char \<Rightarrow> re_state option" where
  "re_step Start c = (if is_AZ c then Some Letter1 else None)"
| "re_step Letter1 c = (if is_AZ c then Some Letter2 else if is_09 c then Some Digits else None)"
| "re_step Letter2 c = (if is_09 c then Some Digits else None)"
| "re_step Digits c =
     (if is_09 c then Some Digits else if c = CHR ''_'' then Some Under
      else if is_AZ c then Some Letter1 else None)"
| "re_step Under c = (if is_AZ c then Some Letter1 else None)"

fun re_run :: "re_state \<Rightarrow> string \<Rightarrow> bool" where
  "re_run q [] = (q = Digits \<or> q = Under)"
| "re_run q (c # cs) = (case re_step q c of None \<Rightarrow> False | Some q' \<Rightarrow> re_run q' cs)"

definition re_position_fullmatch :: "string \<Rightarrow> bool" where
  "re_position_fullmatch s = re_run Start s"

text \<open>\<^verbatim>\<open>s.split(sep)\<close> for a one-character separator: empty fields are kept.\<close>

fun split_on :: "char \<Rightarrow> string \<Rightarrow> string list" where
  "split_on sep [] = [[]]"
| "split_on sep (c # cs) =
     (if c = sep then [] # split_on sep cs
      else (case split_on sep cs of [] \<Rightarrow> [[c]] | t # ts \<Rightarrow> (c # t) # ts))"

text \<open>\<^verbatim>\<open>re.sub("[^0-9]", "", x)\<close>: the digits of \<open>x\<close>, in order.\<close>

definition only_digits :: "string \<Rightarrow> string" where
  "only_digits x = filter is_09 x"

text \<open>
  The three-part test of lines 203 to 205, true when the line is refused:
  \<^verbatim>\<open>len(set([len(x) for x in residue])) != 1 or len(set(residue)) != len(residue)
  or len(set(numbers)) != 1\<close>.
\<close>

definition posline_format_error :: "string list \<Rightarrow> bool" where
  "posline_format_error residue =
     (let numbers = map only_digits residue
      in length (remdups (map length residue)) \<noteq> 1
         \<or> length (remdups residue) \<noteq> length residue
         \<or> length (remdups numbers) \<noteq> 1)"

text \<open>
  Lines 209 to 215, true when the line is refused: the tuple is not an element of
  \<open>unique_residues\<close> and the number of groups \<open>i\<close> with
  \<^verbatim>\<open>set(residue).issubset(set(i))\<close> is not one.
\<close>

definition pdb_residues_list :: "string list list \<Rightarrow> string list \<Rightarrow> bool list" where
  "pdb_residues_list unique_residues residue = map (\<lambda>i. set residue \<subseteq> set i) unique_residues"

definition posline_not_in_pdb :: "string list list \<Rightarrow> string list \<Rightarrow> bool" where
  "posline_not_in_pdb unique_residues residue =
     (residue \<notin> set unique_residues
      \<and> count_list (pdb_residues_list unique_residues residue) True \<noteq> 1)"

text \<open>
  \<^verbatim>\<open>s if str.isdigit(s[1]) else s[1:]\<close>; \<^verbatim>\<open>s[1]\<close> raises \<^verbatim>\<open>IndexError\<close> on a string
  shorter than two characters.
\<close>

definition drop_code :: "string \<Rightarrow> error + string" where
  "drop_code s =
     (if length s < 2 then Inl IndexError
      else if str_isdigit (s ! 1) then Inr s else Inr (tl s))"

text \<open>A list comprehension whose element expression may raise: the first exception wins.\<close>

fun collect :: "(error + 'a) list \<Rightarrow> error + 'a list" where
  "collect [] = Inr []"
| "collect (Inl e # rs) = Inl e"
| "collect (Inr x # rs) = (case collect rs of Inl e \<Rightarrow> Inl e | Inr xs \<Rightarrow> Inr (x # xs))"

text \<open>
  The body of the loop for one line of the file: \<open>posline_tokens\<close> is
  \<^verbatim>\<open>tuple(line.strip().split("_"))\<close>, \<open>parse_posline\<close> gives the tuple appended to
  \<open>out\<close>, or the exception. The log calls are left out.
\<close>

definition posline_tokens :: "string \<Rightarrow> string list" where
  "posline_tokens line = split_on (CHR ''_'') (strip line)"

definition parse_posline :: "string list list \<Rightarrow> string \<Rightarrow> error + string list" where
  "parse_posline unique_residues line =
     (if \<not> re_position_fullmatch (strip line) then Inl TypeError
      else
        (let residue = posline_tokens line
         in if posline_format_error residue then Inl TypeError
            else if posline_not_in_pdb unique_residues residue then Inl TypeError
            else (case collect (map drop_code residue) of
                    Inl e \<Rightarrow> Inl e
                  | Inr toks \<Rightarrow> Inr (sort toks))))"

fun poslist_loop :: "string list list \<Rightarrow> string list \<Rightarrow> string list list \<Rightarrow> error + string list list" where
  "poslist_loop unique_residues [] out = Inr out"
| "poslist_loop unique_residues (line # rest) out =
     (case parse_posline unique_residues line of
        Inl e \<Rightarrow> Inl e
      | Inr r \<Rightarrow> poslist_loop unique_residues rest (out @ [r]))"

text \<open>
  The file is the list of its lines, \<open>None\<close> when \<^verbatim>\<open>open\<close> raises. The result
  \<^verbatim>\<open>list(set(out))\<close> has no defined order, so it is given as a set.
\<close>

definition parse_poslist_file :: "string list option \<Rightarrow> string list list \<Rightarrow> error + string list set" where
  "parse_poslist_file fh unique_residues =
     (case fh of
        None \<Rightarrow> Inl IOError
      | Some lines \<Rightarrow>
          (case poslist_loop unique_residues lines [] of
             Inl e \<Rightarrow> Inl e
           | Inr out \<Rightarrow> Inr (set out)))"

subsection \<open>The position-list checks as the specification words them\<close>

text \<open>
  The digit suffix of a token, its numeric value, and the three checks in the
  wording of the specification: equal digit-suffix length, equal numeric value,
  pairwise distinct tokens.
\<close>

definition digit_suffix :: "string \<Rightarrow> string" where
  "digit_suffix t = rev (takeWhile is_09 (rev t))"

definition digit_value :: "char \<Rightarrow> nat" where
  "digit_value c = of_char c - 48"

definition decimal_value :: "string \<Rightarrow> nat" where
  "decimal_value ds = foldl (\<lambda>n c. 10 * n + digit_value c) 0 ds"

definition spec_tokens_ok :: "string list \<Rightarrow> bool" where
  "spec_tokens_ok toks =
     (length (remdups (map (length \<circ> digit_suffix) toks)) = 1
      \<and> length (remdups (map (decimal_value \<circ> digit_suffix) toks)) = 1
      \<and> distinct toks)"

text \<open>
  The partial match in the wording of the specification: the number of canonical
  groups whose code-stripped tokens include every token of the line, the line's
  tokens being taken by chain and number (a leading residue code, when present,
  removed).
\<close>

definition spec_strip_code :: "string \<Rightarrow> string" where
  "spec_strip_code s = (if 2 \<le> length s \<and> is_AZ (s ! 1) then tl s else s)"

definition spec_partial_matches :: "string list list \<Rightarrow> string list \<Rightarrow> nat" where
  "spec_partial_matches unique_residues toks =
     length (filter (\<lambda>g. set (map spec_strip_code toks) \<subseteq> set (map tl g)) unique_residues)"

section \<open>\<^verbatim>\<open>filter_reslist\<close>\<close>

text \<open>
  \<^verbatim>\<open>int(s)\<close> for a string in base ten: surrounding whitespace is dropped, one sign
  may lead, and the rest must be digits, single underscores allowed between two
  digits; anything else raises \<^verbatim>\<open>ValueError\<close>. Leading zeros are accepted.
  The whitespace that \<^verbatim>\<open>int\<close> drops is TAB, LF, VT, FF, CR, SPACE, NEL and NBSP:
  unlike \<^verbatim>\<open>str.strip\<close> it does not drop the separators FS..US. (The interpreter's
  limit on the number of digits of such a string is not modelled.)
\<close>

definition int_isspace :: "char \<Rightarrow> bool" where
  "int_isspace c = (of_char c \<in> {9, 10, 11, 12, 13, 32, 133, 160 :: nat})"

definition int_strip :: "string \<Rightarrow> string" where
  "int_strip s = rev (dropWhile int_isspace (rev (dropWhile int_isspace s)))"

fun int_body_ok :: "string \<Rightarrow> bool" where
  "int_body_ok [] = False"
| "int_body_ok [c] = is_09 c"
| "int_body_ok (c # d # cs) =
     (is_09 c \<and> (if d = CHR ''_'' then int_body_ok cs else int_body_ok (d # cs)))"

definition py_int :: "string \<Rightarrow> error + int" where
  "py_int s =
     (let t = int_strip s;
          neg = (t \<noteq> [] \<and> hd t = CHR ''-'');
          body = (if t \<noteq> [] \<and> (hd t = CHR ''-'' \<or> hd t = CHR ''+'') then tl t else t)
      in if int_body_ok body
         then Inr (if neg then - int (decimal_value (only_digits body))
                   else int (decimal_value (only_digits body)))
         else Inl ValueError)"

text \<open>
  The loop over \<open>ref\<close>. \<^verbatim>\<open>edited_reslist[i]\<close> is the set of the elements of
  \<^verbatim>\<open>reslist[i]\<close> without their first character. For each \<open>p\<close> the first entry
  \<open>u\<close> of \<open>reslist\<close> with \<^verbatim>\<open>set(p).issubset(edited_reslist[i])\<close> is appended unless
  already present; with no such entry the function raises \<^verbatim>\<open>TypeError\<close>.
\<close>

definition edited :: "string list \<Rightarrow> string set" where
  "edited r = set (map tl r)"

fun filter_loop :: "string list list \<Rightarrow> string list list \<Rightarrow> string list list \<Rightarrow> error + string list list" where
  "filter_loop reslist [] filtered_reslist = Inr filtered_reslist"
| "filter_loop reslist (p # ref) filtered_reslist =
     (case find (\<lambda>u. set p \<subseteq> edited u) reslist of
        None \<Rightarrow> Inl TypeError
      | Some u \<Rightarrow>
          filter_loop reslist ref
            (if u \<in> set filtered_reslist then filtered_reslist else filtered_reslist @ [u]))"

text \<open>
  The sort key \<^verbatim>\<open>(x[0][1], int(x[0][2:]))\<close>: the second character of the first
  element and the integer after it. \<^verbatim>\<open>x[0]\<close> and \<^verbatim>\<open>x[0][1]\<close> raise \<^verbatim>\<open>IndexError\<close> out
  of range.
\<close>

definition reslist_key :: "string list \<Rightarrow> error + (char \<times> int)" where
  "reslist_key x =
     (case x of
        [] \<Rightarrow> Inl IndexError
      | x0 # _ \<Rightarrow>
          if length x0 < 2 then Inl IndexError
          else (case py_int (drop 2 x0) of
                  Inl e \<Rightarrow> Inl e
                | Inr n \<Rightarrow> Inr (x0 ! 1, n)))"

text \<open>
  \<^verbatim>\<open>sorted(xs, key=f)\<close>: the keys are computed first, in list order, and the first
  exception wins; the sort is stable, and pairs compare lexicographically.
\<close>

definition sorted_by_key :: "('a \<Rightarrow> error + 'k::linorder) \<Rightarrow> 'a list \<Rightarrow> error + 'a list" where
  "sorted_by_key f xs =
     (case collect (map f xs) of
        Inl e \<Rightarrow> Inl e
      | Inr keys \<Rightarrow> Inr (map snd (sort_key fst (zip keys xs))))"

definition filter_reslist :: "string list list \<Rightarrow> string list list \<Rightarrow> error + string list list" where
  "filter_reslist reslist ref =
     (case filter_loop reslist ref [] of
        Inl e \<Rightarrow> Inl e
      | Inr filtered_reslist \<Rightarrow> sorted_by_key reslist_key filtered_reslist)"

text \<open>
  The key of an entry whose key evaluation does not raise, and the reduced form of
  a residue list: every element of every entry without its first character.
\<close>

definition the_key :: "string list \<Rightarrow> char \<times> int" where
  "the_key x = projr (reslist_key x)"

definition reduced :: "string list list \<Rightarrow> string list list" where
  "reduced reslist = map (map tl) reslist"

section \<open>\<^verbatim>\<open>get_residue_list\<close> and \<^verbatim>\<open>get_foldx_sequence\<close>\<close>

text \<open>
  The object graph that \<^verbatim>\<open>Bio.PDB.PDBParser\<close> returns, reduced to what the two
  functions read: a structure is the list of its models, a model the list of its
  chains, a chain its one-character identifier (\<^verbatim>\<open>get_id()\<close>, column 22 of the
  file) with the list of its residues, a residue its name (\<^verbatim>\<open>get_resname()\<close>) and
  its sequence number (\<^verbatim>\<open>get_id()[1]\<close>).
\<close>

type_synonym residue = "string \<times> int"
type_synonym chain = "char \<times> residue list"
type_synonym model = "chain list"
type_synonym pdb_structure = "model list"

text \<open>
  \<^verbatim>\<open>PDB.Polypeptide.three_to_one\<close> is a parameter \<open>t31\<close> of the model: the
  one-letter code of a residue name, \<open>None\<close> where the library raises.
\<close>

type_synonym three_to_one = "string \<Rightarrow> char option"

text \<open>\<^verbatim>\<open>"%d" % n\<close>: the decimal digits of an integer, with a minus sign when negative.\<close>

fun nat_digits :: "nat \<Rightarrow> string" where
  "nat_digits n =
     (if n < 10 then [char_of (48 + n)]
      else nat_digits (n div 10) @ [char_of (48 + n mod 10)])"

declare nat_digits.simps [simp del]

definition show_int :: "int \<Rightarrow> string" where
  "show_int i = (if i < 0 then CHR ''-'' # nat_digits (nat (- i)) else nat_digits (nat i))"

text \<open>\<^verbatim>\<open>"%s%s%d" % (res_code, chain_id, resid)\<close>.\<close>

definition res_name :: "char \<Rightarrow> char \<Rightarrow> int \<Rightarrow> string" where
  "res_name res_code c resid = res_code # c # show_int resid"

text \<open>
  An element of the list that \<^verbatim>\<open>get_residue_list\<close> returns: a string where the code
  appends \<^verbatim>\<open>"%s%s%d" % (...)\<close>, a tuple of strings where it appends
  \<^verbatim>\<open>tuple(sorted(...))\<close>. \<open>py_len\<close> is \<^verbatim>\<open>len\<close> of such an element.
\<close>

datatype entry = Str string | Tuple "string list"

fun py_len :: "entry \<Rightarrow> nat" where
  "py_len (Str s) = length s"
| "py_len (Tuple t) = length t"

text \<open>
  The state of the first loop: the list being built, the dictionary \<open>sequences\<close>
  (an association list in insertion order; an assignment to a key already present
  keeps its position), and the log.
\<close>

record 'e scan =
  residue_list :: "'e list"
  sequences :: "(char \<times> string) list"
  logged :: "loglevel list"

text \<open>\<open>d[k] = v\<close> and \<open>d[k] += [c]\<close> on the dictionary.\<close>

fun assign :: "char \<Rightarrow> string \<Rightarrow> (char \<times> string) list \<Rightarrow> (char \<times> string) list" where
  "assign k v [] = [(k, v)]"
| "assign k v ((k', v') # d) = (if k' = k then (k, v) # d else (k', v') # assign k v d)"

fun append_at :: "char \<Rightarrow> char \<Rightarrow> (char \<times> string) list \<Rightarrow> (char \<times> string) list" where
  "append_at k c [] = []"
| "append_at k c ((k', v') # d) = (if k' = k then (k, v' @ [c]) # d else (k', v') # append_at k c d)"

text \<open>
  The body of \<^verbatim>\<open>for residue in chain\<close> in the first loop. \<open>wrap\<close> makes the element
  appended in non-multimer mode out of the formatted name: the bare string in
  \<^verbatim>\<open>get_residue_list\<close>, a one-element tuple in \<^verbatim>\<open>get_foldx_sequence\<close>.
\<close>

definition scan_residue ::
    "three_to_one \<Rightarrow> bool \<Rightarrow> (string \<Rightarrow> 'e) \<Rightarrow> char \<Rightarrow> residue \<Rightarrow> 'e scan \<Rightarrow> 'e scan" where
  "scan_residue t31 multimers wrap chain_name residue st =
     (case t31 (fst residue) of
        None \<Rightarrow> st\<lparr>logged := logged st @ [LogWarning]\<rparr>
      | Some res_code \<Rightarrow>
          if \<not> multimers
          then st\<lparr>residue_list := residue_list st @ [wrap (res_name res_code chain_name (snd residue))]\<rparr>
          else st\<lparr>sequences := append_at chain_name res_code (sequences st)\<rparr>)"

definition scan_chain ::
    "three_to_one \<Rightarrow> bool \<Rightarrow> (string \<Rightarrow> 'e) \<Rightarrow> chain \<Rightarrow> 'e scan \<Rightarrow> 'e scan" where
  "scan_chain t31 multimers wrap ch st =
     fold (scan_residue t31 multimers wrap (fst ch)) (snd ch)
          (st\<lparr>sequences := assign (fst ch) [] (sequences st)\<rparr>)"

definition scan_model ::
    "three_to_one \<Rightarrow> bool \<Rightarrow> (string \<Rightarrow> 'e) \<Rightarrow> model \<Rightarrow> 'e scan \<Rightarrow> 'e scan" where
  "scan_model t31 multimers wrap m st = fold (scan_chain t31 multimers wrap) m st"

text \<open>
  Lines 365 to 371: \<^verbatim>\<open>zip(*items)\<close> cannot be unpacked into two names when the
  dictionary is empty (\<^verbatim>\<open>ValueError\<close>); \<^verbatim>\<open>np.unique\<close> gives the distinct sequences in
  ascending order, and each one collects the identifiers of the chains that have
  it, in dictionary order.
\<close>

definition collated_chains :: "(char \<times> string) list \<Rightarrow> error + char list list" where
  "collated_chains seqs =
     (if seqs = [] then Inl ValueError
      else Inr (map (\<lambda>s. map fst (filter (\<lambda>kv. snd kv = s) seqs))
                    (sort (remdups (map snd seqs)))))"

text \<open>
  The second loop, state \<open>(residue_list, log)\<close>; an exception leaves the log
  written so far. For a group \<open>cg\<close> and a model,
  \<^verbatim>\<open>model[cg[0]]\<close> raises \<^verbatim>\<open>KeyError\<close> when the model has no such chain; every
  recognized residue of that chain gives the tuple of the names of all chains of
  the group, sorted on their second character.
\<close>

definition this_res :: "char \<Rightarrow> char list \<Rightarrow> int \<Rightarrow> string list" where
  "this_res res_code cg resid = sort_key (\<lambda>x. x ! 1) (map (\<lambda>c. res_name res_code c resid) cg)"

definition emit_residue ::
    "three_to_one \<Rightarrow> (string list \<Rightarrow> 'e) \<Rightarrow> char list \<Rightarrow> residue \<Rightarrow>
     'e list \<times> loglevel list \<Rightarrow> 'e list \<times> loglevel list" where
  "emit_residue t31 tup cg residue st =
     (case t31 (fst residue) of
        None \<Rightarrow> (fst st, snd st @ [LogWarning])
      | Some res_code \<Rightarrow> (fst st @ [tup (this_res res_code cg (snd residue))], snd st))"

fun emit_models ::
    "three_to_one \<Rightarrow> (string list \<Rightarrow> 'e) \<Rightarrow> char list \<Rightarrow> model list \<Rightarrow>
     'e list \<times> loglevel list \<Rightarrow> (error + 'e list) \<times> loglevel list" where
  "emit_models t31 tup cg [] st = (Inr (fst st), snd st)"
| "emit_models t31 tup cg (m # ms) st =
     (case cg of
        [] \<Rightarrow> (Inl IndexError, snd st)
      | c0 # _ \<Rightarrow>
          (case map_of m c0 of
             None \<Rightarrow> (Inl KeyError, snd st)
           | Some residues \<Rightarrow> emit_models t31 tup cg ms (fold (emit_residue t31 tup cg) residues st)))"

fun emit_groups ::
    "three_to_one \<Rightarrow> (string list \<Rightarrow> 'e) \<Rightarrow> model list \<Rightarrow> char list list \<Rightarrow>
     'e list \<times> loglevel list \<Rightarrow> (error + 'e list) \<times> loglevel list" where
  "emit_groups t31 tup struc [] st = (Inr (fst st), snd st)"
| "emit_groups t31 tup struc (cg # cgs) st =
     (case emit_models t31 tup cg struc st of
        (Inl e, lg) \<Rightarrow> (Inl e, lg)
      | (Inr rl, lg) \<Rightarrow> emit_groups t31 tup struc cgs (rl, lg))"

definition multimer_pass ::
    "three_to_one \<Rightarrow> (string list \<Rightarrow> 'e) \<Rightarrow> model list \<Rightarrow> 'e scan \<Rightarrow> (error + 'e list) \<times> loglevel list" where
  "multimer_pass t31 tup struc st =
     (case collated_chains (sequences st) of
        Inl e \<Rightarrow> (Inl e, logged st)
      | Inr cgs \<Rightarrow> emit_groups t31 tup struc cgs (residue_list st, logged st))"

text \<open>
  \<^verbatim>\<open>get_residue_list\<close> on a parsed structure \<open>struc\<close> (\<open>None\<close> when the parser raises
  \<^verbatim>\<open>IOError\<close>); the result is the returned list, or the exception, with the log.
  The first loop reads \<^verbatim>\<open>models[0]\<close> only; the second loop is
  \<^verbatim>\<open>for model in structure\<close>. The flag \<^verbatim>\<open>get_structure\<close> only adds the structure to
  the returned value and is left out.
\<close>

definition get_residue_list ::
    "three_to_one \<Rightarrow> pdb_structure option \<Rightarrow> bool \<Rightarrow> (error + entry list) \<times> loglevel list" where
  "get_residue_list t31 parsed multimers =
     (case parsed of
        None \<Rightarrow> (Inl IOError, [LogError])
      | Some struc \<Rightarrow>
          (let lg = (if length struc > 1 then [LogWarning] else [])
           in case struc of
                [] \<Rightarrow> (Inl IOError, lg @ [LogError])
              | model # _ \<Rightarrow>
                  (let st = scan_model t31 multimers Str model
                              \<lparr>residue_list = [], sequences = [], logged = lg\<rparr>
                   in if multimers then multimer_pass t31 Tuple struc st
                      else (Inr (residue_list st), logged st))))"

text \<open>
  \<^verbatim>\<open>get_foldx_sequence\<close>: both loops run over every model of the structure, and the
  non-multimer element is \<^verbatim>\<open>tuple([name])\<close>. The result is the returned tuple of
  tuples.
\<close>

definition get_foldx_sequence ::
    "three_to_one \<Rightarrow> pdb_structure option \<Rightarrow> bool \<Rightarrow> (error + string list list) \<times> loglevel list" where
  "get_foldx_sequence t31 parsed multimers =
     (case parsed of
        None \<Rightarrow> (Inl IOError, [LogError])
      | Some struc \<Rightarrow>
          (let st = fold (scan_model t31 multimers (\<lambda>s. [s])) struc
                      \<lparr>residue_list = [], sequences = [], logged = []\<rparr>
           in if multimers then multimer_pass t31 (\<lambda>t. t) struc st
              else (Inr (residue_list st), logged st)))"

text \<open>
  The names that non-multimer mode gives to the residues of a chain and of a
  model: one per recognized residue, in traversal order. The code sequence of a
  chain is the string of the codes of its recognized residues.
\<close>

definition chain_names :: "three_to_one \<Rightarrow> chain \<Rightarrow> string list" where
  "chain_names t31 ch =
     List.map_filter (\<lambda>r. map_option (\<lambda>a. res_name a (fst ch) (snd r)) (t31 (fst r))) (snd ch)"

definition model_names :: "three_to_one \<Rightarrow> model \<Rightarrow> string list" where
  "model_names t31 m = concat (map (chain_names t31) m)"

definition chain_codes :: "three_to_one \<Rightarrow> chain \<Rightarrow> string" where
  "chain_codes t31 ch = List.map_filter (\<lambda>r. t31 (fst r)) (snd ch)"

text \<open>
  The groups of a model all of whose chains have the same code sequence: one per
  recognized residue of the first chain, naming that residue in every chain.
\<close>

definition homomer_groups :: "three_to_one \<Rightarrow> model \<Rightarrow> string list list" where
  "homomer_groups t31 m =
     List.map_filter (\<lambda>r. map_option (\<lambda>a. this_res a (map fst m) (snd r)) (t31 (fst r)))
                     (snd (hd m))"

text \<open>
  A table for the examples: three residue names of
  \<^verbatim>\<open>Bio.PDB.Polypeptide\<close>, every other name unrecognized.
\<close>

definition t31_sample :: three_to_one where
  "t31_sample n =
     (if n = ''ALA'' then Some (CHR ''A'') else if n = ''GLY'' then Some (CHR ''G'')
      else if n = ''LEU'' then Some (CHR ''L'') else None)"

section \<open>\<^verbatim>\<open>save_energy_file\<close> and \<^verbatim>\<open>parse_ddg_file\<close>\<close>

text \<open>
  A \<^verbatim>\<open>numpy\<close> array of dimension zero, one or two. A two-dimensional array carries
  its number of columns (\<^verbatim>\<open>shape[1]\<close>), so that an array without rows still has a
  shape; its rows all have that length.
\<close>

datatype 'a ndarray = Arr0 'a | Arr1 "'a list" | Arr2 nat "'a list list"

fun ndim :: "'a ndarray \<Rightarrow> nat" where
  "ndim (Arr0 x) = 0"
| "ndim (Arr1 xs) = 1"
| "ndim (Arr2 k rows) = 2"

text \<open>\<^verbatim>\<open>a.T\<close>: arrays of dimension below two are unchanged.\<close>

definition columns :: "nat \<Rightarrow> 'a list list \<Rightarrow> 'a list list" where
  "columns k rows = map (\<lambda>j. map (\<lambda>r. r ! j) rows) [0..<k]"

fun T :: "'a ndarray \<Rightarrow> 'a ndarray" where
  "T (Arr0 x) = Arr0 x"
| "T (Arr1 xs) = Arr1 xs"
| "T (Arr2 k rows) = Arr2 (length rows) (columns k rows)"

text \<open>\<^verbatim>\<open>np.expand_dims(a, 1)\<close> on a one-dimensional array: shape \<open>(n,)\<close> becomes \<open>(n, 1)\<close>.\<close>

definition expand_dims_1 :: "'a list \<Rightarrow> 'a ndarray" where
  "expand_dims_1 xs = Arr2 1 (map (\<lambda>x. [x]) xs)"

text \<open>\<^verbatim>\<open>a.shape[1]\<close> and \<^verbatim>\<open>a[0]\<close>, with \<^verbatim>\<open>IndexError\<close> where \<^verbatim>\<open>numpy\<close> raises it.\<close>

fun shape_1 :: "'a ndarray \<Rightarrow> error + nat" where
  "shape_1 (Arr2 k rows) = Inr k"
| "shape_1 a = Inl IndexError"

fun item_0 :: "'a ndarray \<Rightarrow> error + 'a ndarray" where
  "item_0 (Arr0 x) = Inl IndexError"
| "item_0 (Arr1 []) = Inl IndexError"
| "item_0 (Arr1 (x # xs)) = Inr (Arr0 x)"
| "item_0 (Arr2 k []) = Inl IndexError"
| "item_0 (Arr2 k (r # rows)) = Inr (Arr1 r)"

text \<open>
  The numeric operations of \<^verbatim>\<open>numpy\<close> on one row or column of values are parameters
  of the model, as is \<open>as_text\<close>: the value that a number has after it is written
  with the format \<^verbatim>\<open>fmt\<close> (by default \<^verbatim>\<open>%.5f\<close>) and read back by \<^verbatim>\<open>np.loadtxt\<close>.
\<close>

record 'a numpy_ops =
  np_average :: "'a list \<Rightarrow> 'a"
  np_std :: "'a list \<Rightarrow> 'a"
  np_min :: "'a list \<Rightarrow> 'a"
  np_max :: "'a list \<Rightarrow> 'a"
  as_text :: "'a \<Rightarrow> 'a"

text \<open>
  A data file is the list of its lines without the comments, each the list of its
  numbers. \<^verbatim>\<open>np.loadtxt\<close> skips the lines without a number, raises \<^verbatim>\<open>ValueError\<close>
  when the others differ in their number of columns, gives an empty
  one-dimensional array for a file without data, and removes every axis of
  length one from the result.
\<close>

definition loadtxt :: "'a list list \<Rightarrow> error + 'a ndarray" where
  "loadtxt lines =
     (case filter (\<lambda>l. l \<noteq> []) lines of
        [] \<Rightarrow> Inr (Arr1 [])
      | l # ls \<Rightarrow>
          if \<exists>l' \<in> set ls. length l' \<noteq> length l then Inl ValueError
          else if ls = [] \<and> length l = 1 then Inr (Arr0 (hd l))
          else if ls = [] then Inr (Arr1 l)
          else if length l = 1 then Inr (Arr1 (map hd (l # ls)))
          else Inr (Arr2 (length l) (l # ls)))"

text \<open>
  \<^verbatim>\<open>parse_ddg_file\<close>. The file is \<open>None\<close> when it cannot be opened or holds a token
  that is not a number; every exception of \<^verbatim>\<open>np.loadtxt\<close> is turned into \<^verbatim>\<open>IOError\<close>.
  \<open>reslist\<close> is \<open>None\<close> for the Python \<^verbatim>\<open>None\<close>.
\<close>

definition normalized :: "'a ndarray \<Rightarrow> 'a ndarray" where
  "normalized loaded =
     (case T loaded of
        Arr1 xs \<Rightarrow> expand_dims_1 xs
      | a \<Rightarrow> a)"

definition parse_ddg_file :: "'a list list option \<Rightarrow> 'b list option \<Rightarrow> bool \<Rightarrow> error + 'a ndarray" where
  "parse_ddg_file fh reslist full =
     (case fh of
        None \<Rightarrow> Inl IOError
      | Some lines \<Rightarrow>
          (case loadtxt lines of
             Inl e \<Rightarrow> Inl IOError
           | Inr loaded \<Rightarrow>
               (let ddgs = normalized loaded;
                    rest = (if full then Inr ddgs else item_0 ddgs)
                in case reslist of
                     None \<Rightarrow> rest
                   | Some rl \<Rightarrow>
                       (case shape_1 ddgs of
                          Inl e \<Rightarrow> Inl e
                        | Inr k \<Rightarrow> if k \<noteq> length rl then Inl TypeError else rest))))"

text \<open>
  \<^verbatim>\<open>save_energy_file\<close>. \<open>data\<close> is a two-dimensional array given by its number of
  columns and its rows. A statistic along axis 1 (or -1) has one value per row,
  along axis 0 (or -2) one per column. The statistics are computed in the order
  avg, std, min, max, none of them inside the \<^verbatim>\<open>try\<close>, so their exceptions leave
  the function as they are: the first selected statistic raises \<^verbatim>\<open>ValueError\<close> on
  rows that do not all have the length \<open>ncols\<close> (such data is no two-dimensional
  array) and \<^verbatim>\<open>AxisError\<close> on any other axis; \<^verbatim>\<open>np.average\<close> raises
  \<^verbatim>\<open>ZeroDivisionError\<close> when its result has no element; \<^verbatim>\<open>np.min\<close> and \<^verbatim>\<open>np.max\<close>
  raise \<^verbatim>\<open>ValueError\<close> along an axis of length zero. \<^verbatim>\<open>np.array(out).T\<close> has one row
  per value and one column per selected statistic, and \<^verbatim>\<open>np.savetxt\<close> writes one
  line per row; \<open>writable\<close> is false when it raises. The result is the header and
  the data lines of the file written.
\<close>

definition header_cols :: "bool \<Rightarrow> bool \<Rightarrow> bool \<Rightarrow> bool \<Rightarrow> string list" where
  "header_cols do_avg do_std do_min do_max =
     (if do_avg then [''avg''] else []) @ (if do_std then [''std''] else [])
     @ (if do_min then [''min''] else []) @ (if do_max then [''max''] else [])"

fun join_tab :: "string list \<Rightarrow> string" where
  "join_tab [] = []"
| "join_tab [s] = s"
| "join_tab (s # t # ss) = s @ [CHR 0x09] @ join_tab (t # ss)"

definition save_energy_file ::
    "'a numpy_ops \<Rightarrow> bool \<Rightarrow> nat \<Rightarrow> 'a list list \<Rightarrow> bool \<Rightarrow> bool \<Rightarrow> bool \<Rightarrow> bool \<Rightarrow> int \<Rightarrow>
     error + string \<times> 'a list list" where
  "save_energy_file ops writable ncols rows do_avg do_std do_min do_max axis =
     (let selected = (if do_avg then [np_average ops] else []) @ (if do_std then [np_std ops] else [])
                     @ (if do_min then [np_min ops] else []) @ (if do_max then [np_max ops] else []);
          header = join_tab (header_cols do_avg do_std do_min do_max)
      in if selected \<noteq> [] \<and> (\<exists>r \<in> set rows. length r \<noteq> ncols) then Inl ValueError
         else if selected \<noteq> [] \<and> axis \<notin> {0, 1, - 1, - 2} then Inl AxisError
         else
           (let lanes = (if axis = 1 \<or> axis = - 1 then rows else columns ncols rows);
                lane_length = (if axis = 1 \<or> axis = - 1 then ncols else length rows)
            in if do_avg \<and> lanes = [] then Inl ZeroDivisionError
               else if (do_min \<or> do_max) \<and> lane_length = 0 then Inl ValueError
               else if \<not> writable then Inl IOError
               else if selected = [] then Inr (header, [])
               else Inr (header, map (\<lambda>lane. map (\<lambda>stat. as_text ops (stat lane)) selected) lanes)))"

text \<open>
  Writing with the average only and the default axis, then reading the file back
  without \<open>reslist\<close>.
\<close>

definition avg_round_trip :: "'a numpy_ops \<Rightarrow> nat \<Rightarrow> 'a list list \<Rightarrow> bool \<Rightarrow> error + 'a ndarray" where
  "avg_round_trip ops ncols rows full =
     (case save_energy_file ops True ncols rows True False False False 1 of
        Inl e \<Rightarrow> Inl e
      | Inr (header, lines) \<Rightarrow> parse_ddg_file (Some lines) (None :: unit list option) full)"

section \<open>\<^verbatim>\<open>safe_cp\<close>\<close>

text \<open>
  The operating system is a parameter of the model: a type \<open>'fs\<close> of file-system
  states with the five library calls that \<^verbatim>\<open>safe_cp\<close> makes. \<open>copyfile\<close> and
  \<open>symlink\<close> give the state they leave and whether they returned (\<open>True\<close>) or raised
  (\<open>False\<close>).
\<close>

record 'fs os_ops =
  abspath :: "string \<Rightarrow> string"
  path_exists :: "'fs \<Rightarrow> string \<Rightarrow> bool"
  path_isfile :: "'fs \<Rightarrow> string \<Rightarrow> bool"
  copyfile :: "'fs \<Rightarrow> string \<Rightarrow> string \<Rightarrow> bool \<times> 'fs"
  symlink :: "'fs \<Rightarrow> string \<Rightarrow> string \<Rightarrow> bool \<times> 'fs"

text \<open>
  \<^verbatim>\<open>safe_cp(source, destination, dolink)\<close> in the state \<open>fs\<close>: the result (\<open>Inr ()\<close> for
  a plain return), the state left, and the log.
\<close>

definition safe_cp ::
    "'fs os_ops \<Rightarrow> 'fs \<Rightarrow> string \<Rightarrow> string \<Rightarrow> bool \<Rightarrow> (error + unit) \<times> 'fs \<times> loglevel list" where
  "safe_cp os fs source destination dolink =
     (if abspath os source = abspath os destination then (Inr (), fs, [])
      else if \<not> path_exists os fs source then (Inl IOError, fs, [LogError])
      else if \<not> path_isfile os fs source then (Inl IOError, fs, [LogError])
      else if \<not> dolink then
        (let lg = (if path_exists os fs destination then [LogWarning] else [])
         in case copyfile os fs source destination of
              (True, fs') \<Rightarrow> (Inr (), fs', lg)
            | (False, fs') \<Rightarrow> (Inl IOError, fs', lg @ [LogError]))
      else if path_exists os fs destination then (Inl IOError, fs, [LogError])
      else
        (case symlink os fs source destination of
           (True, fs') \<Rightarrow> (Inr (), fs', [])
         | (False, fs') \<Rightarrow> (Inl IOError, fs', [LogError])))"

text \<open>
  A small file system for the examples: a state maps absolute paths to regular
  files (with their content) and directories, there are no links and no
  permissions. \<^verbatim>\<open>shutil.copyfile\<close> raises when the source is not a regular file or
  the destination is a directory and otherwise writes the content to the
  destination; \<^verbatim>\<open>os.symlink\<close> raises when the destination exists. Links are
  recorded as a copy of the content.
\<close>

datatype node = File string | Dir

definition flat_os :: "(string \<times> node) list os_ops" where
  "flat_os =
     \<lparr>abspath = (\<lambda>p. p),
      path_exists = (\<lambda>fs p. map_of fs p \<noteq> None),
      path_isfile = (\<lambda>fs p. case map_of fs p of Some (File c) \<Rightarrow> True | _ \<Rightarrow> False),
      copyfile = (\<lambda>fs s d.
         case map_of fs s of
           Some (File c) \<Rightarrow> if map_of fs d = Some Dir then (False, fs) else (True, (d, File c) # fs)
         | _ \<Rightarrow> (False, fs)),
      symlink = (\<lambda>fs s d.
         case map_of fs d of
           None \<Rightarrow> (case map_of fs s of Some n \<Rightarrow> (True, (d, n) # fs) | None \<Rightarrow> (True, fs))
         | Some n \<Rightarrow> (False, fs))\<rparr>"

section \<open>Properties of \<^verbatim>\<open>parse_mutlist_file\<close>\<close>

lemma mutlist_loop_ok:
  "\<forall>c \<in> set (mutlist_codes lines). c \<in> set d1_to_index_keys \<Longrightarrow>
   fst (mutlist_loop lines acc lg) = Inr (acc @ mutlist_codes lines)"
proof (induction lines arbitrary: acc lg)
  case Nil
  then show ?case by (simp add: mutlist_codes_def)
next
  case (Cons l ls)
  have rest: "\<forall>c \<in> set (mutlist_codes ls). c \<in> set d1_to_index_keys"
    using Cons.prems by (auto simp: mutlist_codes_def)
  show ?case
  proof (cases "l \<noteq> [] \<and> \<not> startswith l ''#'' \<and> strip l \<noteq> []")
    case True
    then obtain c cs where s: "strip l = c # cs" by (cases "strip l") auto
    have "c \<in> set d1_to_index_keys"
      using Cons.prems True s by (simp add: mutlist_codes_def)
    then show ?thesis
      using True s Cons.IH [OF rest] by (simp add: mutlist_codes_def Let_def)
  next
    case False
    then show ?thesis
      using Cons.IH [OF rest] by (auto simp: mutlist_codes_def split: list.splits)
  qed
qed

lemma mutlist_loop_bad:
  "\<exists>c \<in> set (mutlist_codes lines). c \<notin> set d1_to_index_keys \<Longrightarrow>
   fst (mutlist_loop lines acc lg) = Inl TypeError"
proof (induction lines arbitrary: acc lg)
  case Nil
  then show ?case by (simp add: mutlist_codes_def)
next
  case (Cons l ls)
  show ?case
  proof (cases "l \<noteq> [] \<and> \<not> startswith l ''#'' \<and> strip l \<noteq> []")
    case True
    then obtain c cs where s: "strip l = c # cs" by (cases "strip l") auto
    show ?thesis
    proof (cases "c \<in> set d1_to_index_keys")
      case good: True
      then have "\<exists>c \<in> set (mutlist_codes ls). c \<notin> set d1_to_index_keys"
        using Cons.prems True s by (auto simp: mutlist_codes_def)
      then show ?thesis
        using True s good Cons.IH by (simp add: Let_def)
    next
      case False
      then show ?thesis using True s by (simp add: Let_def)
    qed
  next
    case False
    then have "\<exists>c \<in> set (mutlist_codes ls). c \<notin> set d1_to_index_keys"
      using Cons.prems by (auto simp: mutlist_codes_def)
    then show ?thesis
      using False Cons.IH by (auto split: list.splits)
  qed
qed

lemma mutlist_loop_no_codes:
  "mutlist_codes lines = [] \<Longrightarrow> mutlist_loop lines acc lg = (Inr acc, lg)"
proof (induction lines arbitrary: acc lg)
  case Nil
  then show ?case by simp
next
  case (Cons l ls)
  then show ?case
    by (auto simp: mutlist_codes_def split: list.splits if_splits)
qed

text \<open>
  C6. \<^verbatim>\<open>parse_mutlist_file\<close> keeps the first character of every line that is
  non-empty, not a comment and not blank, without case folding; it raises
  \<^verbatim>\<open>TypeError\<close> when one of these characters is outside the canonical one-letter
  alphabet (so a line \<^verbatim>\<open>a\<close> raises and a line \<^verbatim>\<open>A\<close> is accepted) and when a code
  occurs twice; a file that yields no code is answered with the empty list and one
  error-level log entry, without raising.
\<close>

theorem parse_mutlist_file_first_char_checked:
  "(\<forall>lines. fst (parse_mutlist_file (Some lines)) =
      (if \<exists>c \<in> set (mutlist_codes lines). c \<notin> set d1_to_index_keys then Inl TypeError
       else if \<not> distinct (mutlist_codes lines) then Inl TypeError
       else Inr (mutlist_codes lines)))
   \<and> fst (parse_mutlist_file (Some [[CHR ''a'', CHR 0x0A]])) = Inl TypeError
   \<and> fst (parse_mutlist_file (Some [[CHR ''A'', CHR 0x0A]])) = Inr ''A''
   \<and> (\<forall>lines. mutlist_codes lines = [] \<longrightarrow>
         parse_mutlist_file (Some lines) = (Inr [], [LogError]))"
proof (intro conjI allI impI)
  fix lines
  show "fst (parse_mutlist_file (Some lines)) =
      (if \<exists>c \<in> set (mutlist_codes lines). c \<notin> set d1_to_index_keys then Inl TypeError
       else if \<not> distinct (mutlist_codes lines) then Inl TypeError
       else Inr (mutlist_codes lines))"
  proof (cases "\<exists>c \<in> set (mutlist_codes lines). c \<notin> set d1_to_index_keys")
    case True
    from mutlist_loop_bad [OF True, of "[]" "[]"]
    obtain lg where "mutlist_loop lines [] [] = (Inl TypeError, lg)"
      by (cases "mutlist_loop lines [] []") auto
    with True show ?thesis by (simp add: parse_mutlist_file_def)
  next
    case False
    then have "\<forall>c \<in> set (mutlist_codes lines). c \<in> set d1_to_index_keys" by blast
    from mutlist_loop_ok [OF this, of "[]" "[]"]
    obtain lg where "mutlist_loop lines [] [] = (Inr (mutlist_codes lines), lg)"
      by (cases "mutlist_loop lines [] []") auto
    with False show ?thesis by (simp add: parse_mutlist_file_def)
  qed
next
  show "fst (parse_mutlist_file (Some [[CHR ''a'', CHR 0x0A]])) = Inl TypeError"
    by (simp add: parse_mutlist_file_def startswith_def strip_def isspace_def d1_to_index_keys_def)
next
  show "fst (parse_mutlist_file (Some [[CHR ''A'', CHR 0x0A]])) = Inr ''A''"
    by (simp add: parse_mutlist_file_def startswith_def strip_def isspace_def d1_to_index_keys_def)
next
  fix lines
  assume "mutlist_codes lines = []"
  then show "parse_mutlist_file (Some lines) = (Inr [], [LogError])"
    by (simp add: parse_mutlist_file_def mutlist_loop_no_codes)
qed

theorem parse_mutlist_file_first_char_checked_witness:
  "mutlist_codes [''#G'', [CHR 0x0A]] = []
   \<and> parse_mutlist_file (Some [''#G'', [CHR 0x0A]]) = (Inr [], [LogError])
   \<and> (\<exists>c \<in> set (mutlist_codes [''Ala'', ''a'']). c \<notin> set d1_to_index_keys)
   \<and> fst (parse_mutlist_file (Some [''Ala'', ''a''])) = Inl TypeError
   \<and> fst (parse_mutlist_file (Some [''Ala'', ''G'', ''A''])) = Inl TypeError
   \<and> fst (parse_mutlist_file (Some [''Ala'', ''G''])) = Inr ''AG''"
proof -
  have c1: "mutlist_codes [''#G'', [CHR 0x0A]] = []"
    by (simp add: mutlist_codes_def startswith_def strip_def isspace_def)
  have c2: "mutlist_codes [''Ala'', ''a''] = ''Aa''"
    by (simp add: mutlist_codes_def startswith_def strip_def isspace_def)
  have c3: "mutlist_codes [''Ala'', ''G'', ''A''] = ''AGA''"
    by (simp add: mutlist_codes_def startswith_def strip_def isspace_def)
  have c4: "mutlist_codes [''Ala'', ''G''] = ''AG''"
    by (simp add: mutlist_codes_def startswith_def strip_def isspace_def)
  note spec = parse_mutlist_file_first_char_checked
  have "parse_mutlist_file (Some [''#G'', [CHR 0x0A]]) = (Inr [], [LogError])"
    using spec c1 by blast
  moreover have "fst (parse_mutlist_file (Some [''Ala'', ''a''])) = Inl TypeError"
    using spec [THEN conjunct1, rule_format, of "[''Ala'', ''a'']"] c2
    by (simp add: d1_to_index_keys_def)
  moreover have "fst (parse_mutlist_file (Some [''Ala'', ''G'', ''A''])) = Inl TypeError"
    using spec [THEN conjunct1, rule_format, of "[''Ala'', ''G'', ''A'']"] c3
    by (simp add: d1_to_index_keys_def)
  moreover have "fst (parse_mutlist_file (Some [''Ala'', ''G''])) = Inr ''AG''"
    using spec [THEN conjunct1, rule_format, of "[''Ala'', ''G'']"] c4
    by (simp add: d1_to_index_keys_def)
  ultimately show ?thesis using c1 c2 by (simp add: d1_to_index_keys_def)
qed

section \<open>Properties of \<^verbatim>\<open>parse_poslist_file\<close>\<close>

lemma split_on_nonempty: "split_on sep s \<noteq> []"
  by (induction s) (auto split: list.splits)

lemma split_on_Cons:
  "c \<noteq> sep \<Longrightarrow> split_on sep (c # cs) = (c # hd (split_on sep cs)) # tl (split_on sep cs)"
  using split_on_nonempty [of sep cs] by (cases "split_on sep cs") auto

lemma is_AZ_not_underscore: "is_AZ c \<Longrightarrow> c \<noteq> CHR ''_''"
  by (auto simp: is_AZ_def less_eq_char_def)

lemma is_09_not_underscore: "is_09 c \<Longrightarrow> c \<noteq> CHR ''_''"
  by (auto simp: is_09_def less_eq_char_def)

lemma re_first_token:
  assumes "re_position_fullmatch s"
  shows "2 \<le> length (hd (split_on (CHR ''_'') s))"
proof -
  from assms obtain c1 s1 where s: "s = c1 # s1" and c1: "is_AZ c1" and r1: "re_run Letter1 s1"
    by (cases s) (auto simp: re_position_fullmatch_def split: if_splits)
  from r1 obtain c2 s2 where s1: "s1 = c2 # s2" and c2: "is_AZ c2 \<or> is_09 c2"
    by (cases s1) (auto split: if_splits)
  have "c1 \<noteq> CHR ''_''" "c2 \<noteq> CHR ''_''"
    using c1 c2 is_AZ_not_underscore is_09_not_underscore by blast+
  then show ?thesis
    unfolding s s1 by (simp add: split_on_Cons del: split_on.simps)
qed

lemma remdups_singleton_iff:
  "length (remdups xs) = 1 \<longleftrightarrow> xs \<noteq> [] \<and> (\<forall>x \<in> set xs. x = hd xs)"
proof
  assume h: "length (remdups xs) = 1"
  then have ne: "xs \<noteq> []" by auto
  from h have "card (set xs) = 1" by (simp add: length_remdups_card_conv)
  then obtain a where a: "set xs = {a}" by (auto simp: card_1_singleton_iff)
  with ne have "hd xs = a" by (metis hd_in_set singletonD)
  with a ne show "xs \<noteq> [] \<and> (\<forall>x \<in> set xs. x = hd xs)" by auto
next
  assume h: "xs \<noteq> [] \<and> (\<forall>x \<in> set xs. x = hd xs)"
  then have "set xs = {hd xs}" by auto
  then have "card (set xs) = 1" by simp
  then show "length (remdups xs) = 1" by (simp add: length_remdups_card_conv)
qed

lemma remdups_map_singleton_iff:
  "length (remdups (map f xs)) = 1 \<longleftrightarrow> xs \<noteq> [] \<and> (\<forall>x \<in> set xs. f x = f (hd xs))"
  unfolding remdups_singleton_iff by (cases xs) simp_all

lemma posline_format_error_iff:
  "posline_format_error residue \<longleftrightarrow>
     residue = [] \<or>
     \<not> ((\<forall>t \<in> set residue. length t = length (hd residue))
        \<and> distinct residue
        \<and> (\<forall>t \<in> set residue. only_digits t = only_digits (hd residue)))"
proof -
  have u: "length (remdups residue) = length residue \<longleftrightarrow> distinct residue"
    by simp
  show ?thesis
    unfolding posline_format_error_def Let_def remdups_map_singleton_iff u by blast
qed

lemma collect_map_Inr: "collect (map (\<lambda>x. Inr (f x)) xs) = Inr (map f xs)"
  by (induction xs) auto

lemma collect_drop_code:
  assumes "\<forall>t \<in> set residue. 2 \<le> length t"
  shows "collect (map drop_code residue) =
           Inr (map (\<lambda>s. if str_isdigit (s ! 1) then s else tl s) residue)"
  using assms by (induction residue) (auto simp: drop_code_def)

lemma parse_posline_passed:
  assumes m: "re_position_fullmatch (strip line)"
    and f: "\<not> posline_format_error (posline_tokens line)"
  shows "parse_posline u line =
           (if posline_not_in_pdb u (posline_tokens line) then Inl TypeError
            else Inr (sort (map (\<lambda>s. if str_isdigit (s ! 1) then s else tl s)
                                (posline_tokens line))))"
proof -
  let ?r = "posline_tokens line"
  have "\<forall>t \<in> set ?r. 2 \<le> length t"
  proof
    fix t assume "t \<in> set ?r"
    with f have "length t = length (hd ?r)"
      unfolding posline_format_error_iff by blast
    with re_first_token [OF m] show "2 \<le> length t" by (simp add: posline_tokens_def)
  qed
  from collect_drop_code [OF this]
  have c: "collect (map drop_code ?r) =
             Inr (map (\<lambda>s. if str_isdigit (s ! 1) then s else tl s) ?r)" .
  show ?thesis
    unfolding parse_posline_def Let_def c using m f by simp
qed

lemma parse_posline_refused:
  "\<not> re_position_fullmatch (strip line) \<or> posline_format_error (posline_tokens line)
     \<or> posline_not_in_pdb u (posline_tokens line) \<Longrightarrow>
   parse_posline u line = Inl TypeError"
  by (auto simp: parse_posline_def Let_def)

lemma count_list_map_True: "count_list (map P xs) True = length (filter P xs)"
  by (induction xs) auto

lemma posline_not_in_pdb_iff:
  "posline_not_in_pdb u residue \<longleftrightarrow>
     residue \<notin> set u \<and> length (filter (\<lambda>g. set residue \<subseteq> set g) u) \<noteq> 1"
  by (simp add: posline_not_in_pdb_def pdb_residues_list_def count_list_map_True)

lemma filter_none_when_token_absent:
  assumes "t \<in> set residue" and "\<forall>g \<in> set u. t \<notin> set g"
  shows "filter (\<lambda>g. set residue \<subseteq> set g) u = []" and "residue \<notin> set u"
  using assms by (auto simp: filter_empty_conv)

text \<open>
  C8, as the code has it. For a line that passes the whole-line regex the format
  step raises \<^verbatim>\<open>TypeError\<close> exactly when the tokens do not all have the same total
  length, or are not pairwise distinct, or do not all have the same string of
  digit characters; a line that passes the three tests goes on to the lookup in
  the structure-derived list.
\<close>

theorem parse_posline_format_step:
  assumes "re_position_fullmatch (strip line)"
  shows "(posline_format_error (posline_tokens line) \<longleftrightarrow>
            \<not> ((\<forall>t \<in> set (posline_tokens line). length t = length (hd (posline_tokens line)))
               \<and> distinct (posline_tokens line)
               \<and> (\<forall>t \<in> set (posline_tokens line).
                     only_digits t = only_digits (hd (posline_tokens line)))))
         \<and> (posline_format_error (posline_tokens line) \<longrightarrow> parse_posline u line = Inl TypeError)
         \<and> (\<not> posline_format_error (posline_tokens line) \<longrightarrow>
               parse_posline u line =
                 (if posline_not_in_pdb u (posline_tokens line) then Inl TypeError
                  else Inr (sort (map (\<lambda>s. if str_isdigit (s ! 1) then s else tl s)
                                      (posline_tokens line)))))"
proof (intro conjI impI)
  have "posline_tokens line \<noteq> []"
    by (simp add: posline_tokens_def split_on_nonempty)
  then show "posline_format_error (posline_tokens line) \<longleftrightarrow>
            \<not> ((\<forall>t \<in> set (posline_tokens line). length t = length (hd (posline_tokens line)))
               \<and> distinct (posline_tokens line)
               \<and> (\<forall>t \<in> set (posline_tokens line).
                     only_digits t = only_digits (hd (posline_tokens line))))"
    unfolding posline_format_error_iff by blast
next
  assume "posline_format_error (posline_tokens line)"
  then show "parse_posline u line = Inl TypeError"
    by (simp add: parse_posline_refused)
next
  assume "\<not> posline_format_error (posline_tokens line)"
  with assms show "parse_posline u line =
      (if posline_not_in_pdb u (posline_tokens line) then Inl TypeError
       else Inr (sort (map (\<lambda>s. if str_isdigit (s ! 1) then s else tl s)
                           (posline_tokens line))))"
    by (rule parse_posline_passed)
qed

theorem parse_posline_format_step_witness:
  "re_position_fullmatch (strip ''AB12_AA12'')
   \<and> \<not> posline_format_error (posline_tokens ''AB12_AA12'')
   \<and> parse_posline [[''AA12'', ''AB12'']] ''AB12_AA12'' = Inr [''A12'', ''B12'']
   \<and> re_position_fullmatch (strip ''A12_B13'')
   \<and> posline_format_error (posline_tokens ''A12_B13'')
   \<and> parse_posline [[''AA12'', ''AB12'']] ''A12_B13'' = Inl TypeError"
proof -
  have m: "re_position_fullmatch (strip ''AB12_AA12'')" by code_simp
  have f: "\<not> posline_format_error (posline_tokens ''AB12_AA12'')" by code_simp
  have n: "\<not> posline_not_in_pdb [[''AA12'', ''AB12'']] (posline_tokens ''AB12_AA12'')"
    by code_simp
  have v: "sort (map (\<lambda>s. if str_isdigit (s ! 1) then s else tl s) (posline_tokens ''AB12_AA12''))
             = [''A12'', ''B12'']"
    by code_simp
  have m': "re_position_fullmatch (strip ''A12_B13'')" by code_simp
  have f': "posline_format_error (posline_tokens ''A12_B13'')" by code_simp
  from parse_posline_format_step [OF m, of "[[''AA12'', ''AB12'']]"] f n v
  have "parse_posline [[''AA12'', ''AB12'']] ''AB12_AA12'' = Inr [''A12'', ''B12'']"
    by simp
  moreover from parse_posline_format_step [OF m', of "[[''AA12'', ''AB12'']]"] f'
  have "parse_posline [[''AA12'', ''AB12'']] ''A12_B13'' = Inl TypeError"
    by blast
  ultimately show ?thesis using m f m' f' by blast
qed

text \<open>
  C8 as the specification words it fails on the line \<^verbatim>\<open>AA12_B12\<close>: it passes the
  regex, its tokens have digit suffixes of equal length and equal value and are
  distinct, and the format step still raises, because the tokens differ in total
  length.
\<close>

theorem parse_posline_format_step_counterexample:
  "re_position_fullmatch (strip ''AA12_B12'')
   \<and> spec_tokens_ok (posline_tokens ''AA12_B12'')
   \<and> posline_format_error (posline_tokens ''AA12_B12'')
   \<and> parse_posline [[''AA12'', ''AB12'']] ''AA12_B12'' = Inl TypeError"
  by code_simp

text \<open>
  The lines that the code accepts. A line is accepted exactly when it passes the
  regex and the format step and its tuple either is an element of
  \<open>unique_residues\<close> or has all its tokens, compared as written, inside exactly
  one group of that list; every other line raises \<^verbatim>\<open>TypeError\<close>. An accepted line
  yields its tokens, each without its residue code, sorted. A line with a token
  that no group contains raises.
\<close>

lemma parse_posline_accepts_iff:
  "((\<exists>r. parse_posline u line = Inr r) \<longleftrightarrow>
      re_position_fullmatch (strip line)
      \<and> \<not> posline_format_error (posline_tokens line)
      \<and> (posline_tokens line \<in> set u
         \<or> length (filter (\<lambda>g. set (posline_tokens line) \<subseteq> set g) u) = 1))
   \<and> ((\<nexists>r. parse_posline u line = Inr r) \<longrightarrow> parse_posline u line = Inl TypeError)
   \<and> (\<forall>r. parse_posline u line = Inr r \<longrightarrow>
          r = sort (map (\<lambda>s. if str_isdigit (s ! 1) then s else tl s) (posline_tokens line)))
   \<and> ((\<exists>t \<in> set (posline_tokens line). \<forall>g \<in> set u. t \<notin> set g) \<longrightarrow>
          parse_posline u line = Inl TypeError)"
proof (cases "\<not> re_position_fullmatch (strip line) \<or> posline_format_error (posline_tokens line)
     \<or> posline_not_in_pdb u (posline_tokens line)")
  case True
  then have "parse_posline u line = Inl TypeError"
    by (rule parse_posline_refused)
  with True show ?thesis
    unfolding posline_not_in_pdb_iff by auto
next
  case False
  then have m: "re_position_fullmatch (strip line)"
    and f: "\<not> posline_format_error (posline_tokens line)"
    and n: "\<not> posline_not_in_pdb u (posline_tokens line)"
    by blast+
  from parse_posline_passed [OF m f, of u] n
  have p: "parse_posline u line =
      Inr (sort (map (\<lambda>s. if str_isdigit (s ! 1) then s else tl s) (posline_tokens line)))"
    by simp
  have "\<not> (\<exists>t \<in> set (posline_tokens line). \<forall>g \<in> set u. t \<notin> set g)"
  proof
    assume "\<exists>t \<in> set (posline_tokens line). \<forall>g \<in> set u. t \<notin> set g"
    then obtain t where "t \<in> set (posline_tokens line)" "\<forall>g \<in> set u. t \<notin> set g"
      by blast
    from filter_none_when_token_absent [OF this] n show False
      unfolding posline_not_in_pdb_iff by simp
  qed
  with p m f n show ?thesis
    unfolding posline_not_in_pdb_iff by auto
qed

text \<open>
  C2 at the line \<^verbatim>\<open>A12_B12\<close> against the structure-derived list
  \<^verbatim>\<open>[(AA12, AB12)]\<close>. The line passes the regex, whose first letter is optional,
  and the format step (against a list whose names carry no residue code it is
  accepted); its tokens, taken by chain and number, lie in the
  code-stripped tokens of exactly one group; and the last step would keep them as
  they are, since their second character is a digit. But the lookup compares the
  tokens as written with the names of the group, which carry the residue code,
  so the line is refused with \<^verbatim>\<open>TypeError\<close>; so is the file that holds it, and so
  are the lines \<^verbatim>\<open>A12\<close> and \<^verbatim>\<open>B12\<close>. The same positions written with the residue
  code, \<^verbatim>\<open>AA12_AB12\<close>, are accepted and give \<^verbatim>\<open>(A12, B12)\<close>.
\<close>

theorem parse_posline_codeless_line:
  "posline_tokens ''A12_B12'' = [''A12'', ''B12'']
   \<and> re_position_fullmatch (strip ''A12_B12'')
   \<and> posline_tokens ''A12_B12'' \<notin> set [[''AA12'', ''AB12'']]
   \<and> spec_partial_matches [[''AA12'', ''AB12'']] (posline_tokens ''A12_B12'') = 1
   \<and> collect (map drop_code (posline_tokens ''A12_B12'')) = Inr [''A12'', ''B12'']
   \<and> parse_posline [[''AA12'', ''AB12'']] ''A12_B12'' = Inl TypeError
   \<and> parse_poslist_file (Some [''A12_B12'']) [[''AA12'', ''AB12'']] = Inl TypeError
   \<and> parse_posline [[''AA12'', ''AB12'']] ''A12'' = Inl TypeError
   \<and> parse_posline [[''AA12'', ''AB12'']] ''B12'' = Inl TypeError
   \<and> parse_posline [[''AA12'', ''AB12'']] ''AA12_AB12'' = Inr [''A12'', ''B12'']
   \<and> parse_posline [[''A12'', ''B12'']] ''A12_B12'' = Inr [''A12'', ''B12'']"
  by code_simp

section \<open>Properties of \<^verbatim>\<open>filter_reslist\<close>\<close>

text \<open>
  The sort key of an entry whose first element is a name as the structure
  functions write it, \<^verbatim>\<open>"%s%s%d" % (code, chain, number)\<close>, is the pair of that chain
  and that number: \<^verbatim>\<open>int\<close> reads back what \<^verbatim>\<open>%d\<close> wrote.
\<close>

lemma digit_char: "d < 10 \<Longrightarrow> is_09 (char_of (48 + d)) \<and> digit_value (char_of (48 + d)) = d"
  by (simp add: is_09_def less_eq_char_def digit_value_def)

lemma nat_digits_nonempty: "nat_digits n \<noteq> []"
  by (subst nat_digits.simps) simp

lemma nat_digits_all_digits: "\<forall>c \<in> set (nat_digits n). is_09 c"
proof (induction n rule: nat_digits.induct)
  case (1 n)
  show ?case
  proof (cases "n < 10")
    case True
    then show ?thesis by (subst nat_digits.simps) (simp add: digit_char)
  next
    case False
    have "n mod 10 < 10" by simp
    then have "is_09 (char_of (48 + n mod 10))" by (simp only: digit_char)
    with False "1.IH" show ?thesis by (subst nat_digits.simps) simp
  qed
qed

lemma decimal_value_snoc: "decimal_value (ds @ [c]) = 10 * decimal_value ds + digit_value c"
  by (simp add: decimal_value_def)

lemma decimal_value_nat_digits: "decimal_value (nat_digits n) = n"
proof (induction n rule: nat_digits.induct)
  case (1 n)
  show ?case
  proof (cases "n < 10")
    case True
    then have "nat_digits n = [char_of (48 + n)]" by (subst nat_digits.simps) simp
    with True show ?thesis by (simp add: decimal_value_def digit_char)
  next
    case False
    then have e: "nat_digits n = nat_digits (n div 10) @ [char_of (48 + n mod 10)]"
      by (subst nat_digits.simps) simp
    have "n mod 10 < 10" by simp
    then have "digit_value (char_of (48 + n mod 10)) = n mod 10" by (simp only: digit_char)
    with False "1.IH" show ?thesis by (simp add: e decimal_value_snoc)
  qed
qed

lemma int_body_ok_digits: "ds \<noteq> [] \<Longrightarrow> \<forall>c \<in> set ds. is_09 c \<Longrightarrow> int_body_ok ds"
proof (induction ds rule: int_body_ok.induct)
  case 1
  then show ?case by simp
next
  case (2 c)
  then show ?case by simp
next
  case (3 c d cs)
  have "d \<noteq> CHR ''_''" using "3.prems"(2) by (auto simp: is_09_def less_eq_char_def)
  with 3 show ?case by simp
qed

lemma is_09_not_space: "is_09 c \<Longrightarrow> \<not> int_isspace c"
  by (auto simp: is_09_def less_eq_char_def int_isspace_def)

lemma int_strip_id:
  assumes "s \<noteq> []" and "\<not> int_isspace (hd s)" and "\<not> int_isspace (last s)"
  shows "int_strip s = s"
proof -
  have "dropWhile int_isspace s = s" using assms(1,2) by (cases s) auto
  moreover have "dropWhile int_isspace (rev s) = rev s"
    using assms(1,3) by (cases "rev s") (auto simp: last_rev [symmetric] hd_rev)
  ultimately show ?thesis by (simp add: int_strip_def)
qed

lemma py_int_show_int: "py_int (show_int i) = Inr i"
proof -
  let ?ds = "nat_digits (nat \<bar>i\<bar>)"
  have ne: "?ds \<noteq> []" by (rule nat_digits_nonempty)
  have dg: "\<forall>c \<in> set ?ds. is_09 c" by (rule nat_digits_all_digits)
  have ok: "int_body_ok ?ds" using ne dg by (rule int_body_ok_digits)
  have od: "only_digits ?ds = ?ds" using dg by (simp add: only_digits_def)
  have hd9: "is_09 (hd ?ds)" "is_09 (last ?ds)" using ne dg by auto
  then have nsp: "\<not> int_isspace (hd ?ds)" "\<not> int_isspace (last ?ds)"
    by (simp_all add: is_09_not_space)
  have nsign: "hd ?ds \<noteq> CHR ''-''" "hd ?ds \<noteq> CHR ''+''"
    using hd9(1) by (auto simp: is_09_def less_eq_char_def)
  show ?thesis
  proof (cases "i < 0")
    case True
    then have s: "show_int i = CHR ''-'' # ?ds" by (simp add: show_int_def abs_if)
    have "\<not> int_isspace (CHR ''-'')" by (simp add: int_isspace_def)
    moreover have "last (CHR ''-'' # ?ds) = last ?ds" using ne by simp
    ultimately have "int_strip (CHR ''-'' # ?ds) = CHR ''-'' # ?ds"
      using nsp(2) by (intro int_strip_id) simp_all
    with True ok od show ?thesis
      by (simp add: py_int_def s Let_def decimal_value_nat_digits)
  next
    case False
    then have s: "show_int i = ?ds" by (simp add: show_int_def abs_if)
    have "int_strip ?ds = ?ds" using ne nsp by (rule int_strip_id)
    with False ok od ne nsign show ?thesis
      by (simp add: py_int_def s Let_def decimal_value_nat_digits)
  qed
qed

lemma reslist_key_res_name: "reslist_key (res_name a c i # rest) = Inr (c, i)"
  by (simp add: reslist_key_def res_name_def py_int_show_int numeral_2_eq_2)

lemma the_key_res_name: "the_key (res_name a c i # rest) = (c, i)"
  by (simp add: the_key_def reslist_key_res_name)

lemma find_own_entry:
  assumes anti: "\<forall>r \<in> set rs. \<forall>r' \<in> set rs. edited r \<subseteq> edited r' \<longrightarrow> r = r'"
    and r: "r \<in> set rs" and p: "set p = edited r"
  shows "find (\<lambda>u. set p \<subseteq> edited u) rs = Some r"
proof (cases "find (\<lambda>u. set p \<subseteq> edited u) rs")
  case None
  then have "\<not> (\<exists>x. x \<in> set rs \<and> set p \<subseteq> edited x)"
    unfolding find_None_iff .
  with r p show ?thesis by blast
next
  case (Some u)
  then obtain i where "i < length rs" "set p \<subseteq> edited (rs ! i)" "u = rs ! i"
    unfolding find_Some_iff by blast
  then have "u \<in> set rs" "edited r \<subseteq> edited u" using p by auto
  with anti r have "r = u" by blast
  with Some show ?thesis by simp
qed

lemma filter_loop_own:
  assumes anti: "\<forall>r \<in> set rs. \<forall>r' \<in> set rs. edited r \<subseteq> edited r' \<longrightarrow> r = r'"
  shows "list_all2 (\<lambda>p r. set p = edited r) ref qs \<Longrightarrow> set qs \<subseteq> set rs \<Longrightarrow>
         distinct (acc @ qs) \<Longrightarrow> filter_loop rs ref acc = Inr (acc @ qs)"
proof (induction ref qs arbitrary: acc rule: list_all2_induct)
  case Nil
  then show ?case by simp
next
  case (Cons p ref q qs)
  have f: "find (\<lambda>u. set p \<subseteq> edited u) rs = Some q"
    using find_own_entry [OF anti, of q p] Cons.hyps(1) Cons.prems(1) by simp
  have n: "q \<notin> set acc" using Cons.prems(2) by auto
  have "filter_loop rs ref (acc @ [q]) = Inr ((acc @ [q]) @ qs)"
    using Cons.IH [of "acc @ [q]"] Cons.prems by simp
  with f n show ?case by simp
qed

lemma collect_keys:
  "\<forall>r \<in> set xs. \<exists>k. reslist_key r = Inr k \<Longrightarrow>
   collect (map reslist_key xs) = Inr (map the_key xs)"
  by (induction xs) (auto simp: the_key_def)

lemma insort_key_snd:
  "\<forall>z \<in> set ys. fst z = f (snd z) \<Longrightarrow>
   map snd (insort_key fst (f x, x) ys) = insort_key f x (map snd ys)"
  by (induction ys) auto

lemma sort_key_decorated:
  "map snd (sort_key fst (zip (map f xs) xs)) = sort_key f xs"
proof (induction xs)
  case Nil
  then show ?case by simp
next
  case (Cons x xs)
  have "\<forall>z \<in> set (sort_key fst (zip (map f xs) xs)). fst z = f (snd z)"
    by (auto simp: set_zip)
  from insort_key_snd [OF this, of x] Cons.IH show ?case by simp
qed

lemma sorted_by_key_ok:
  assumes "\<forall>r \<in> set xs. \<exists>k. reslist_key r = Inr k"
  shows "sorted_by_key reslist_key xs = Inr (sort_key the_key xs)"
  by (simp add: sorted_by_key_def collect_keys [OF assms] sort_key_decorated)

lemma filter_same_key:
  "distinct xs \<Longrightarrow> inj_on f (set xs) \<Longrightarrow> k \<in> set xs \<Longrightarrow>
   filter (\<lambda>x. f k = f x) xs = [k]"
proof (induction xs)
  case Nil
  then show ?case by simp
next
  case (Cons a xs)
  show ?case
  proof (cases "k = a")
    case True
    have "filter (\<lambda>x. f a = f x) xs = []"
      using Cons.prems(1,2) by (auto simp: filter_empty_conv inj_on_def)
    with True show ?thesis by simp
  next
    case False
    with Cons.prems have "k \<in> set xs" "f k \<noteq> f a" by (auto simp: inj_on_def)
    with Cons show ?thesis by simp
  qed
qed

lemma sort_key_permutation:
  assumes m: "mset xs = mset ys" and d: "distinct xs" and i: "inj_on f (set xs)"
  shows "sort_key f xs = sort_key f ys"
proof (rule properties_for_sort_key)
  show "mset (sort_key f ys) = mset xs" using m by simp
  show "sorted (map f (sort_key f ys))" by simp
  fix k assume k: "k \<in> set (sort_key f ys)"
  have s: "set ys = set xs" using m by (metis mset_eq_setD)
  have dy: "distinct ys" using m d by (metis mset_eq_imp_distinct_iff)
  have "filter (\<lambda>x. f k = f x) (sort_key f ys) = [k]"
    by (rule filter_same_key) (use k dy i s in simp_all)
  moreover have "filter (\<lambda>x. f k = f x) xs = [k]"
    by (rule filter_same_key) (use k d i s in simp_all)
  ultimately show "filter (\<lambda>x. f k = f x) (sort_key f ys) = filter (\<lambda>x. f k = f x) xs"
    by simp
qed

lemma filter_reslist_sorted:
  assumes wf: "\<forall>r \<in> set reslist. \<exists>k. reslist_key r = Inr k"
    and anti: "\<forall>r \<in> set reslist. \<forall>r' \<in> set reslist. edited r \<subseteq> edited r' \<longrightarrow> r = r'"
    and d: "distinct reslist"
    and keys: "inj_on the_key (set reslist)"
    and perm: "mset reslist' = mset reslist"
    and perm2: "mset qs = mset reslist"
    and ref: "list_all2 (\<lambda>p r. set p = edited r) ref qs"
  shows "filter_reslist reslist' ref = Inr (sort_key the_key reslist)"
proof -
  have s: "set reslist' = set reslist" "set qs = set reslist"
    using perm perm2 by (metis mset_eq_setD)+
  have dq: "distinct qs" using perm2 d by (metis mset_eq_imp_distinct_iff)
  have anti': "\<forall>r \<in> set reslist'. \<forall>r' \<in> set reslist'. edited r \<subseteq> edited r' \<longrightarrow> r = r'"
    using anti s by simp
  have "filter_loop reslist' ref [] = Inr ([] @ qs)"
    by (rule filter_loop_own [OF anti' ref]) (use s dq in simp_all)
  moreover have "sorted_by_key reslist_key qs = Inr (sort_key the_key qs)"
    by (rule sorted_by_key_ok) (use wf s in simp)
  moreover have "sort_key the_key qs = sort_key the_key reslist"
    by (rule sort_key_permutation [OF perm2 dq]) (use keys s in simp)
  ultimately show ?thesis by (simp add: filter_reslist_def)
qed

lemma reduced_matches: "list_all2 (\<lambda>p r. set p = edited r) (reduced qs) qs"
  by (simp add: reduced_def edited_def list_all2_map1 list_all2_same)

lemma sorted_keys_strict:
  assumes names: "\<forall>r \<in> set reslist. \<exists>a c i rest. r = res_name a c i # rest"
    and d: "distinct reslist"
    and keys: "\<forall>r \<in> set reslist. \<forall>r' \<in> set reslist. the_key r = the_key r' \<longrightarrow> r = r'"
    and jk: "j < k" "k < length reslist"
    and oj: "sort_key the_key reslist ! j = res_name a c i # rest"
    and ok: "sort_key the_key reslist ! k = res_name a' c' i' # rest'"
  shows "c < c' \<or> (c = c' \<and> i < i')"
proof -
  let ?out = "sort_key the_key reslist"
  have len: "length ?out = length reslist" by simp
  have "sorted (map the_key ?out)" by simp
  then have "map the_key ?out ! j \<le> map the_key ?out ! k"
    using jk len by (intro sorted_nth_mono) simp_all
  then have le: "(c, i) \<le> (c', i')"
    using jk len oj ok by (simp add: the_key_res_name)
  have "distinct ?out" using d by simp
  then have ne: "?out ! j \<noteq> ?out ! k"
    using jk len by (simp add: nth_eq_iff_index_eq)
  have "?out ! j \<in> set reslist" "?out ! k \<in> set reslist"
    using jk len by (metis nth_mem order_less_trans set_sort)+
  with keys ne have "the_key (?out ! j) \<noteq> the_key (?out ! k)" by blast
  then have "(c, i) \<noteq> (c', i')" by (simp add: oj ok the_key_res_name)
  with le show ?thesis by (auto simp: less_eq_prod_def)
qed

text \<open>
  C4, as the code has it. Take a residue list without repeated entries, each
  entry starting with a name of the form code, chain, number, in which no two
  entries start at the same chain and number and no entry's code-stripped token
  set is included in another entry's. For \<open>ref\<close> the reduced form of the list, in
  any order of the entries, \<^verbatim>\<open>filter_reslist\<close> returns the entries of the list,
  each once, in ascending order of the chain character and, within a chain, of
  the residue number compared as an integer. The result is the same for every
  order of \<open>reslist\<close> and of \<open>ref\<close>, and applying the function to its own result
  with the same \<open>ref\<close> returns that result again.
\<close>

theorem filter_reslist_full_reference:
  assumes "\<forall>r \<in> set reslist. \<exists>a c i rest. r = res_name a c i # rest"
    and "\<forall>r \<in> set reslist. \<forall>r' \<in> set reslist. \<forall>a c i rest a' rest'.
           r = res_name a c i # rest \<and> r' = res_name a' c i # rest' \<longrightarrow> r = r'"
    and "\<forall>r \<in> set reslist. \<forall>r' \<in> set reslist. edited r \<subseteq> edited r' \<longrightarrow> r = r'"
    and "distinct reslist"
    and "mset reslist' = mset reslist"
    and "mset qs = mset reslist"
  shows "filter_reslist reslist' (reduced qs) = Inr (sort_key the_key reslist)
         \<and> mset (sort_key the_key reslist) = mset reslist
         \<and> (\<forall>j k a c i rest a' c' i' rest'.
               j < k \<and> k < length reslist
               \<and> sort_key the_key reslist ! j = res_name a c i # rest
               \<and> sort_key the_key reslist ! k = res_name a' c' i' # rest'
               \<longrightarrow> c < c' \<or> (c = c' \<and> i < i'))
         \<and> filter_reslist (sort_key the_key reslist) (reduced qs)
             = Inr (sort_key the_key reslist)"
proof -
  have wf: "\<forall>r \<in> set reslist. \<exists>k. reslist_key r = Inr k"
  proof
    fix r assume "r \<in> set reslist"
    with assms(1) obtain a c i rest where "r = res_name a c i # rest" by blast
    then have "reslist_key r = Inr (c, i)" by (simp only: reslist_key_res_name)
    then show "\<exists>k. reslist_key r = Inr k" by blast
  qed
  have keys: "\<forall>r \<in> set reslist. \<forall>r' \<in> set reslist. the_key r = the_key r' \<longrightarrow> r = r'"
  proof (intro ballI impI)
    fix r r' assume r: "r \<in> set reslist" "r' \<in> set reslist" and e: "the_key r = the_key r'"
    from r(1) assms(1) obtain a c i rest where n1: "r = res_name a c i # rest"
      by blast
    from r(2) assms(1) obtain a' c' i' rest' where n2: "r' = res_name a' c' i' # rest'"
      by blast
    note n = n1 n2
    with e have "c' = c" "i' = i" by (simp_all add: the_key_res_name)
    with n r assms(2) show "r = r'" by blast
  qed
  then have inj: "inj_on the_key (set reslist)" by (simp add: inj_on_def)
  have p: "mset (sort_key the_key reslist) = mset reslist" by simp
  have 1: "filter_reslist reslist' (reduced qs) = Inr (sort_key the_key reslist)"
    using wf assms(3,4) inj assms(5,6) reduced_matches by (rule filter_reslist_sorted)
  have 2: "filter_reslist (sort_key the_key reslist) (reduced qs) = Inr (sort_key the_key reslist)"
    using wf assms(3,4) inj p assms(6) reduced_matches by (rule filter_reslist_sorted)
  have 3: "c < c' \<or> (c = c' \<and> i < i')"
    if "j < k \<and> k < length reslist
        \<and> sort_key the_key reslist ! j = res_name a c i # rest
        \<and> sort_key the_key reslist ! k = res_name a' c' i' # rest'"
    for j k a c i rest a' c' i' rest'
    using sorted_keys_strict [OF assms(1,4) keys, of j k a c i rest a' c' i' rest'] that
    by blast
  from 1 2 3 p show ?thesis by blast
qed

theorem filter_reslist_full_reference_witness:
  "filter_reslist [[''AA10''], [''GA9''], [''LB2'', ''LC2'']]
       (reduced [[''LB2'', ''LC2''], [''AA10''], [''GA9'']])
     = Inr [[''GA9''], [''AA10''], [''LB2'', ''LC2'']]
   \<and> [''GA9''] = [res_name (CHR ''G'') (CHR ''A'') 9] \<and> [''AA10''] = [res_name (CHR ''A'') (CHR ''A'') 10]
   \<and> (CHR ''A'' < CHR ''A'' \<or> (CHR ''A'' = CHR ''A'' \<and> (9 :: int) < 10))
   \<and> filter_reslist [[''GA9''], [''AA10''], [''LB2'', ''LC2'']]
       (reduced [[''LB2'', ''LC2''], [''AA10''], [''GA9'']])
     = Inr [[''GA9''], [''AA10''], [''LB2'', ''LC2'']]"
proof -
  let ?rs = "[[''AA10''], [''GA9''], [''LB2'', ''LC2'']]"
  let ?qs = "[[''LB2'', ''LC2''], [''AA10''], [''GA9'']]"
  have n: "[''AA10''] = res_name (CHR ''A'') (CHR ''A'') 10 # []"
    "[''GA9''] = res_name (CHR ''G'') (CHR ''A'') 9 # []"
    "[''LB2'', ''LC2''] = res_name (CHR ''L'') (CHR ''B'') 2 # [''LC2'']"
    by code_simp+
  have names: "\<forall>r \<in> set ?rs. \<exists>a c i rest. r = res_name a c i # rest"
    using n by (metis insert_iff list.simps(15) empty_iff empty_set)
  have k: "the_key [''AA10''] = (CHR ''A'', 10)" "the_key [''GA9''] = (CHR ''A'', 9)"
    "the_key [''LB2'', ''LC2''] = (CHR ''B'', 2)"
    by (simp_all only: n the_key_res_name)
  have same: "\<forall>r \<in> set ?rs. \<forall>r' \<in> set ?rs. the_key r = the_key r' \<longrightarrow> r = r'"
    using k by simp
  have keys: "\<forall>r \<in> set ?rs. \<forall>r' \<in> set ?rs. \<forall>a c i rest a' rest'.
           r = res_name a c i # rest \<and> r' = res_name a' c i # rest' \<longrightarrow> r = r'"
  proof (intro ballI allI impI)
    fix r r' a c i rest a' rest'
    assume r: "r \<in> set ?rs" "r' \<in> set ?rs"
      and e: "r = res_name a c i # rest \<and> r' = res_name a' c i # rest'"
    then have "the_key r = the_key r'" by (simp add: the_key_res_name)
    with same r show "r = r'" by blast
  qed
  have anti: "\<forall>r \<in> set ?rs. \<forall>r' \<in> set ?rs. edited r \<subseteq> edited r' \<longrightarrow> r = r'"
    by code_simp
  have d: "distinct ?rs" by simp
  have p1: "mset ?rs = mset ?rs" by simp
  have p2: "mset ?qs = mset ?rs" by simp
  have s: "sort_key the_key ?rs = [[''GA9''], [''AA10''], [''LB2'', ''LC2'']]"
    by code_simp
  note spec = filter_reslist_full_reference [OF names keys anti d p1 p2]
  have a: "filter_reslist ?rs (reduced ?qs) = Inr [[''GA9''], [''AA10''], [''LB2'', ''LC2'']]"
    using spec s by simp
  have b: "filter_reslist [[''GA9''], [''AA10''], [''LB2'', ''LC2'']] (reduced ?qs)
      = Inr [[''GA9''], [''AA10''], [''LB2'', ''LC2'']]"
    using spec s by simp
  have "(0 :: nat) < 1 \<and> 1 < length ?rs
      \<and> sort_key the_key ?rs ! 0 = res_name (CHR ''G'') (CHR ''A'') 9 # []
      \<and> sort_key the_key ?rs ! 1 = res_name (CHR ''A'') (CHR ''A'') 10 # []"
    using s n by simp
  with spec have c: "CHR ''A'' < CHR ''A'' \<or> (CHR ''A'' = CHR ''A'' \<and> (9 :: int) < 10)"
    by blast
  from a b c n show ?thesis by simp
qed

text \<open>
  C4 as the specification words it fails on a list with two entries for the same
  chain and number, as a structure with an insertion code gives: both reference
  entries select the first entry, which is kept once, and the second entry is
  dropped.
\<close>

theorem filter_reslist_full_reference_counterexample:
  "filter_reslist [[''AA12''], [''GA12'']] (reduced [[''AA12''], [''GA12'']]) = Inr [[''AA12'']]
   \<and> mset [[''AA12'']] \<noteq> mset [[''AA12''], [''GA12'']]"
proof -
  have "filter_reslist [[''AA12''], [''GA12'']] (reduced [[''AA12''], [''GA12'']]) = Inr [[''AA12'']]"
    by code_simp
  then show ?thesis by simp
qed

section \<open>Properties of \<^verbatim>\<open>get_residue_list\<close> and \<^verbatim>\<open>get_foldx_sequence\<close>\<close>

lemma get_residue_list_no_model:
  "get_residue_list t31 (Some []) multimers = (Inl IOError, [LogError])"
  by (simp add: get_residue_list_def)

lemma scan_residues_single:
  "residue_list (fold (scan_residue t31 False wrap c) rs st)
     = residue_list st @ map wrap (chain_names t31 (c, rs))"
proof (induction rs arbitrary: st)
  case Nil
  show ?case by (simp add: chain_names_def List.map_filter_simps)
next
  case (Cons r rs)
  have "chain_names t31 (c, r # rs) =
          (case t31 (fst r) of None \<Rightarrow> [] | Some a \<Rightarrow> [res_name a c (snd r)])
          @ chain_names t31 (c, rs)"
    by (cases "t31 (fst r)") (simp_all add: chain_names_def List.map_filter_simps)
  moreover have "residue_list (scan_residue t31 False wrap c r st)
      = residue_list st @ map wrap (case t31 (fst r) of None \<Rightarrow> [] | Some a \<Rightarrow> [res_name a c (snd r)])"
    by (cases "t31 (fst r)") (simp_all add: scan_residue_def)
  ultimately show ?case using Cons.IH [of "scan_residue t31 False wrap c r st"] by simp
qed

lemma scan_model_single:
  "residue_list (scan_model t31 False wrap m st)
     = residue_list st @ map wrap (model_names t31 m)"
proof (induction m arbitrary: st)
  case Nil
  show ?case by (simp add: scan_model_def model_names_def)
next
  case (Cons ch m)
  have "residue_list (scan_chain t31 False wrap ch st)
          = residue_list st @ map wrap (chain_names t31 ch)"
    using scan_residues_single [of t31 wrap "fst ch" "snd ch"]
    by (simp add: scan_chain_def)
  with Cons.IH [of "scan_chain t31 False wrap ch st"] show ?case
    by (simp add: scan_model_def model_names_def)
qed

lemma get_residue_list_single:
  "fst (get_residue_list t31 (Some (m # ms)) False) = Inr (map Str (model_names t31 m))"
  using scan_model_single [of t31 Str m]
  by (simp add: get_residue_list_def Let_def)

lemma scan_structure_single:
  "residue_list (fold (scan_model t31 False wrap) ms st)
     = residue_list st @ map wrap (concat (map (model_names t31) ms))"
  by (induction ms arbitrary: st) (simp_all add: scan_model_single)

lemma get_foldx_sequence_single:
  "fst (get_foldx_sequence t31 (Some ms) False)
     = Inr (map (\<lambda>s. [s]) (concat (map (model_names t31) ms)))"
  using scan_structure_single [of t31 "\<lambda>s. [s]" ms]
  by (simp add: get_foldx_sequence_def Let_def)

text \<open>
  Multimer mode on a structure with one model whose chains have distinct
  identifiers and the same code sequence: both functions return one group per
  recognized residue of the first chain, and every group has one name per chain,
  in ascending order of the chain identifiers.
\<close>

lemma assign_new: "k \<notin> fst ` set d \<Longrightarrow> assign k v d = d @ [(k, v)]"
  by (induction d) auto

lemma append_at_last: "k \<notin> fst ` set d \<Longrightarrow> append_at k c (d @ [(k, v)]) = d @ [(k, v @ [c])]"
  by (induction d) auto

lemma chain_codes_Cons:
  "chain_codes t31 (k, r # rs) =
     (case t31 (fst r) of None \<Rightarrow> [] | Some a \<Rightarrow> [a]) @ chain_codes t31 (k, rs)"
  by (cases "t31 (fst r)") (simp_all add: chain_codes_def List.map_filter_simps)

lemma scan_residues_multimer:
  assumes "k \<notin> fst ` set d"
  shows "sequences st = d @ [(k, v)] \<Longrightarrow>
         sequences (fold (scan_residue t31 True wrap k) rs st) = d @ [(k, v @ chain_codes t31 (k, rs))]
         \<and> residue_list (fold (scan_residue t31 True wrap k) rs st) = residue_list st"
proof (induction rs arbitrary: st v)
  case Nil
  then show ?case by (simp add: chain_codes_def List.map_filter_simps)
next
  case (Cons r rs)
  show ?case
  proof (cases "t31 (fst r)")
    case None
    then have "sequences (scan_residue t31 True wrap k r st) = d @ [(k, v)]"
      "residue_list (scan_residue t31 True wrap k r st) = residue_list st"
      using Cons.prems by (simp_all add: scan_residue_def)
    with Cons.IH [of "scan_residue t31 True wrap k r st" v] None show ?thesis
      by (simp add: chain_codes_Cons)
  next
    case (Some a)
    then have "sequences (scan_residue t31 True wrap k r st) = d @ [(k, v @ [a])]"
      "residue_list (scan_residue t31 True wrap k r st) = residue_list st"
      using Cons.prems assms by (simp_all add: scan_residue_def append_at_last)
    with Cons.IH [of "scan_residue t31 True wrap k r st" "v @ [a]"] Some show ?thesis
      by (simp add: chain_codes_Cons)
  qed
qed

lemma scan_chain_multimer:
  assumes "fst ch \<notin> fst ` set (sequences st)"
  shows "sequences (scan_chain t31 True wrap ch st) = sequences st @ [(fst ch, chain_codes t31 ch)]
         \<and> residue_list (scan_chain t31 True wrap ch st) = residue_list st"
  using scan_residues_multimer [OF assms, of "st\<lparr>sequences := assign (fst ch) [] (sequences st)\<rparr>"
      "[]" t31 wrap "snd ch"] assms
  by (simp add: scan_chain_def assign_new)

lemma scan_model_multimer:
  "distinct (map fst m) \<Longrightarrow> fst ` set m \<inter> fst ` set (sequences st) = {} \<Longrightarrow>
   sequences (scan_model t31 True wrap m st)
     = sequences st @ map (\<lambda>ch. (fst ch, chain_codes t31 ch)) m
   \<and> residue_list (scan_model t31 True wrap m st) = residue_list st"
proof (induction m arbitrary: st)
  case Nil
  show ?case by (simp add: scan_model_def)
next
  case (Cons ch m)
  have n: "fst ch \<notin> fst ` set (sequences st)" using Cons.prems(2) by auto
  note c = scan_chain_multimer [OF n, of t31 wrap]
  have "fst ` set m \<inter> fst ` set (sequences (scan_chain t31 True wrap ch st)) = {}"
    using Cons.prems c by auto
  with Cons.IH [of "scan_chain t31 True wrap ch st"] Cons.prems(1) c show ?case
    by (simp add: scan_model_def)
qed

lemma remdups_constant:
  assumes "xs \<noteq> []" and "\<forall>x \<in> set xs. x = s"
  shows "remdups xs = [s]"
proof -
  from assms have "set xs = {s}" by (cases xs) auto
  then have "length (remdups xs) = 1" by (simp add: length_remdups_card_conv)
  then obtain y where y: "remdups xs = [y]"
    by (cases "remdups xs") simp_all
  then have "y \<in> set xs" by (metis list.set_intros(1) set_remdups)
  with assms(2) y show ?thesis by simp
qed

lemma collated_chains_one_group:
  assumes "seqs \<noteq> []" and "\<forall>kv \<in> set seqs. snd kv = s"
  shows "collated_chains seqs = Inr [map fst seqs]"
proof -
  have "remdups (map snd seqs) = [s]"
    by (rule remdups_constant) (use assms in auto)
  moreover have "filter (\<lambda>kv. snd kv = s) seqs = seqs"
    using assms(2) by (simp add: filter_id_conv)
  ultimately show ?thesis using assms(1) by (simp add: collated_chains_def)
qed

lemma emit_residues_fst:
  "fst (fold (emit_residue t31 tup cg) rs st)
     = fst st @ map tup (List.map_filter
         (\<lambda>r. map_option (\<lambda>a. this_res a cg (snd r)) (t31 (fst r))) rs)"
proof (induction rs arbitrary: st)
  case Nil
  show ?case by (simp add: List.map_filter_simps)
next
  case (Cons r rs)
  show ?case
    using Cons.IH [of "emit_residue t31 tup cg r st"]
    by (cases "t31 (fst r)") (simp_all add: emit_residue_def List.map_filter_simps)
qed

lemma multimer_pass_one_model:
  assumes ne: "m \<noteq> []" and seqs: "sequences st = map (\<lambda>ch. (fst ch, chain_codes t31 ch)) m"
    and same: "\<forall>ch \<in> set m. chain_codes t31 ch = chain_codes t31 (hd m)"
  shows "fst (multimer_pass t31 tup [m] st)
           = Inr (residue_list st @ map tup (homomer_groups t31 m))"
proof -
  from ne obtain ch0 rest where m: "m = ch0 # rest" by (cases m) auto
  let ?cg = "fst ch0 # map fst rest"
  let ?F = "fold (emit_residue t31 tup ?cg) (snd ch0) (residue_list st, logged st)"
  have "sequences st \<noteq> []" using ne by (simp add: seqs)
  moreover have "\<forall>kv \<in> set (sequences st). snd kv = chain_codes t31 (hd m)"
    unfolding seqs using same by simp
  ultimately have "collated_chains (sequences st) = Inr [map fst (sequences st)]"
    by (rule collated_chains_one_group)
  then have c: "collated_chains (sequences st) = Inr [?cg]"
    by (simp add: seqs m comp_def)
  have "emit_models t31 tup ?cg [m] (residue_list st, logged st) = (Inr (fst ?F), snd ?F)"
    unfolding m by simp
  then have "emit_groups t31 tup [m] [?cg] (residue_list st, logged st) = (Inr (fst ?F), snd ?F)"
    by simp
  then have "fst (multimer_pass t31 tup [m] st) = Inr (fst ?F)"
    unfolding multimer_pass_def c by simp
  moreover have "fst ?F = residue_list st @ map tup (homomer_groups t31 m)"
    unfolding emit_residues_fst homomer_groups_def m by simp
  ultimately show ?thesis by simp
qed

lemma homomers_single_model:
  assumes "m \<noteq> []" and "distinct (map fst m)"
    and "\<forall>ch \<in> set m. chain_codes t31 ch = chain_codes t31 (hd m)"
  shows "fst (get_foldx_sequence t31 (Some [m]) True) = Inr (homomer_groups t31 m)"
    and "fst (get_residue_list t31 (Some [m]) True) = Inr (map Tuple (homomer_groups t31 m))"
proof -
  let ?st0 = "\<lparr>residue_list = [], sequences = [], logged = []\<rparr>"
  have s: "sequences (scan_model t31 True wrap m ?st0) = map (\<lambda>ch. (fst ch, chain_codes t31 ch)) m"
    "residue_list (scan_model t31 True wrap m ?st0) = []" for wrap :: "string \<Rightarrow> 'e"
    using scan_model_multimer [OF assms(2), of ?st0 t31 wrap] by simp_all
  show "fst (get_foldx_sequence t31 (Some [m]) True) = Inr (homomer_groups t31 m)"
    using multimer_pass_one_model [OF assms(1) s(1) assms(3), where tup = "\<lambda>t. t"] s(2)
    by (simp add: get_foldx_sequence_def Let_def)
  show "fst (get_residue_list t31 (Some [m]) True) = Inr (map Tuple (homomer_groups t31 m))"
    using multimer_pass_one_model [OF assms(1) s(1) assms(3), where tup = Tuple] s(2)
    by (simp add: get_residue_list_def Let_def)
qed

lemma insort_key_map:
  "insort_key f (g x) (map g ys) = map g (insort_key (\<lambda>y. f (g y)) x ys)"
  by (induction ys) auto

lemma sort_key_map: "sort_key f (map g xs) = map g (sort_key (\<lambda>y. f (g y)) xs)"
  by (induction xs) (simp_all add: insort_key_map)

lemma this_res_sorted: "this_res a cg i = map (\<lambda>c. res_name a c i) (sort cg)"
proof -
  have "(\<lambda>c. res_name a c i ! 1) = (\<lambda>c. c)"
    by (auto simp: res_name_def)
  then show ?thesis by (simp add: this_res_def sort_key_map)
qed

lemma homomer_groups_size:
  assumes "g \<in> set (homomer_groups t31 m)"
  shows "length g = length m \<and> map (\<lambda>x. x ! 1) g = sort (map fst m)"
proof -
  from assms obtain a i where "g = this_res a (map fst m) i"
    by (auto simp: homomer_groups_def List.map_filter_def)
  then show ?thesis by (simp add: this_res_sorted res_name_def comp_def)
qed

text \<open>
  C3 at a structure with two models, both with the one chain \<^verbatim>\<open>A\<close>, the first
  holding \<^verbatim>\<open>ALA 1\<close> and the second \<^verbatim>\<open>GLY 2\<close>. After the warning that only the
  first model will be used, multimer mode (the default) returns an identifier
  for the residue of the second model as well; non-multimer mode returns the
  first model's residue only. With no model the function raises \<^verbatim>\<open>IOError\<close>.
\<close>

theorem get_residue_list_two_models:
  "get_residue_list t31_sample
       (Some [[(CHR ''A'', [(''ALA'', 1)])], [(CHR ''A'', [(''GLY'', 2)])]]) True
     = (Inr [Tuple [''AA1''], Tuple [''GA2'']], [LogWarning])
   \<and> get_residue_list t31_sample (Some [[(CHR ''A'', [(''ALA'', 1)])]]) True
     = (Inr [Tuple [''AA1'']], [])
   \<and> get_residue_list t31_sample
       (Some [[(CHR ''A'', [(''ALA'', 1)])], [(CHR ''A'', [(''GLY'', 2)])]]) False
     = (Inr [Str ''AA1''], [LogWarning])
   \<and> get_residue_list t31_sample (Some []) True = (Inl IOError, [LogError])"
  by code_simp

text \<open>
  C1 at a structure with one model and the one chain \<^verbatim>\<open>A\<close> holding \<^verbatim>\<open>ALA 1\<close>. In
  non-multimer mode \<^verbatim>\<open>get_residue_list\<close> returns the bare string \<^verbatim>\<open>AA1\<close>, whose
  length is three, where \<^verbatim>\<open>get_foldx_sequence\<close> returns the one-element tuple
  \<^verbatim>\<open>(AA1,)\<close>; in multimer mode both return that tuple.
\<close>

theorem get_residue_list_bare_string:
  "get_residue_list t31_sample (Some [[(CHR ''A'', [(''ALA'', 1)])]]) False
     = (Inr [Str ''AA1''], [])
   \<and> map py_len [Str ''AA1''] = [3]
   \<and> get_foldx_sequence t31_sample (Some [[(CHR ''A'', [(''ALA'', 1)])]]) False
     = (Inr [[''AA1'']], [])
   \<and> get_residue_list t31_sample (Some [[(CHR ''A'', [(''ALA'', 1)])]]) True
     = (Inr [Tuple [''AA1'']], [])
   \<and> get_foldx_sequence t31_sample (Some [[(CHR ''A'', [(''ALA'', 1)])]]) True
     = (Inr [[''AA1'']], [])"
  by code_simp

section \<open>Properties of \<^verbatim>\<open>save_energy_file\<close> and \<^verbatim>\<open>parse_ddg_file\<close>\<close>

lemma save_energy_file_avg:
  assumes "rows \<noteq> []" and "\<forall>r \<in> set rows. length r = ncols"
  shows "save_energy_file ops True ncols rows True False False False 1
           = Inr (''avg'', map (\<lambda>r. [as_text ops (np_average ops r)]) rows)"
  using assms by (simp add: save_energy_file_def header_cols_def)

lemma loadtxt_single_column:
  assumes "2 \<le> length rows"
  shows "loadtxt (map (\<lambda>r. [f r]) rows) = Inr (Arr1 (map f rows))"
proof -
  from assms obtain r r' rs where rows: "rows = r # r' # rs"
    by (cases rows; cases "tl rows") auto
  then show ?thesis
    by (simp add: loadtxt_def comp_def filter_map)
qed

lemma normalized_cases:
  "normalized (Arr0 x) = Arr0 x"
  "normalized (Arr1 xs) = Arr2 1 (map (\<lambda>x. [x]) xs)"
  "normalized (Arr2 k rows) = Arr2 (length rows) (columns k rows)"
  by (simp_all add: normalized_def expand_dims_1_def)

lemma parse_ddg_file_loaded:
  assumes "loadtxt lines = Inr loaded"
  shows "parse_ddg_file (Some lines) reslist full =
           (case reslist of
              None \<Rightarrow> (if full then Inr (normalized loaded) else item_0 (normalized loaded))
            | Some rl \<Rightarrow>
                (case shape_1 (normalized loaded) of
                   Inl e \<Rightarrow> Inl e
                 | Inr k \<Rightarrow>
                     if k \<noteq> length rl then Inl TypeError
                     else if full then Inr (normalized loaded) else item_0 (normalized loaded)))"
  using assms by (simp add: parse_ddg_file_def Let_def)

lemma parse_ddg_file_matrix:
  assumes l: "loadtxt lines = Inr loaded" and d: "ndim loaded \<noteq> 0"
  shows "\<exists>k rows. normalized loaded = Arr2 k rows
           \<and> (\<forall>rl. parse_ddg_file (Some lines) (Some rl) full = Inl TypeError \<longleftrightarrow> k \<noteq> length rl)
           \<and> parse_ddg_file (Some lines) (None :: 'b list option) True = Inr (Arr2 k rows)
           \<and> (rows \<noteq> [] \<longrightarrow>
                parse_ddg_file (Some lines) (None :: 'b list option) False = Inr (Arr1 (hd rows)))"
proof -
  from d obtain k rows where n: "normalized loaded = Arr2 k rows"
    by (cases loaded) (auto simp: normalized_cases)
  have i: "item_0 (Arr2 k rows) \<noteq> Inl TypeError"
    by (cases rows) auto
  have h: "rows \<noteq> [] \<Longrightarrow> item_0 (Arr2 k rows) = Inr (Arr1 (hd rows))"
    by (cases rows) auto
  show ?thesis
    using n i h by (auto simp: parse_ddg_file_loaded [OF l])
qed

text \<open>
  For a rectangular matrix with at least two rows, written with the average only
  along the default axis: the file has one column, \<^verbatim>\<open>np.loadtxt\<close> gives a
  one-dimensional array, and \<^verbatim>\<open>expand_dims(ddgs, 1)\<close> makes every written average
  a row of its own. With \<^verbatim>\<open>full=True\<close> all of them are returned, as a one-column
  matrix; with \<^verbatim>\<open>full=False\<close> the first row is returned, which holds the first
  average and nothing else.
\<close>

lemma avg_round_trip_full:
  assumes "2 \<le> length rows" and "\<forall>r \<in> set rows. length r = ncols"
  shows "avg_round_trip ops ncols rows True
           = Inr (Arr2 1 (map (\<lambda>r. [as_text ops (np_average ops r)]) rows))"
proof -
  from assms(1) have ne: "rows \<noteq> []" by auto
  show ?thesis
    using loadtxt_single_column [OF assms(1), of "\<lambda>r. as_text ops (np_average ops r)"]
    by (simp add: avg_round_trip_def save_energy_file_avg [OF ne assms(2)] parse_ddg_file_def
        normalized_cases comp_def)
qed

lemma avg_round_trip_first:
  assumes "2 \<le> length rows" and "\<forall>r \<in> set rows. length r = ncols"
  shows "avg_round_trip ops ncols rows False
           = Inr (Arr1 [as_text ops (np_average ops (hd rows))])"
proof -
  from assms(1) obtain r rs where rows: "rows = r # rs" by (cases rows) auto
  then have ne: "rows \<noteq> []" by simp
  have "avg_round_trip ops ncols rows False
          = item_0 (Arr2 1 (map (\<lambda>r. [as_text ops (np_average ops r)]) rows))"
    using loadtxt_single_column [OF assms(1), of "\<lambda>r. as_text ops (np_average ops r)"]
    by (simp add: avg_round_trip_def save_energy_file_avg [OF ne assms(2)] parse_ddg_file_def
        normalized_cases comp_def)
  then show ?thesis by (simp add: rows)
qed

lemma avg_round_trip_one_row:
  assumes "length r = ncols"
  shows "avg_round_trip ops ncols [r] False = Inl IndexError"
  using assms
  by (simp add: avg_round_trip_def save_energy_file_def header_cols_def parse_ddg_file_def
      loadtxt_def normalized_def)

text \<open>
  C5 at the matrix with the two rows \<open>a b\<close> and \<open>c d\<close>, for any numbers and any
  numeric operations. Averaging directly gives two values, one per row. Written
  with the average only and read back with \<^verbatim>\<open>full=False\<close>, the file gives one
  value, the written average of the first row: the second average is lost,
  whatever the format does to the numbers. Read back with \<^verbatim>\<open>full=True\<close> both
  written averages are there. A matrix with one row makes the reader raise
  \<^verbatim>\<open>IndexError\<close>.
\<close>

theorem avg_round_trip_first_value_only:
  "avg_round_trip ops 2 [[a, b], [c, d]] False
     = Inr (Arr1 [as_text ops (np_average ops [a, b])])
   \<and> map (np_average ops) [[a, b], [c, d]] = [np_average ops [a, b], np_average ops [c, d]]
   \<and> avg_round_trip ops 2 [[a, b], [c, d]] False
       \<noteq> Inr (Arr1 (map (np_average ops) [[a, b], [c, d]]))
   \<and> avg_round_trip ops 2 [[a, b], [c, d]] True
       = Inr (Arr2 1 [[as_text ops (np_average ops [a, b])], [as_text ops (np_average ops [c, d])]])
   \<and> avg_round_trip ops 2 [[a, b]] False = Inl IndexError"
proof -
  have l: "2 \<le> length [[a, b], [c, d]]" and r: "\<forall>r \<in> set [[a, b], [c, d]]. length r = 2"
    by simp_all
  from avg_round_trip_first [OF l r, of ops] avg_round_trip_full [OF l r, of ops]
    avg_round_trip_one_row [of "[a, b]" 2 ops]
  show ?thesis by simp
qed

text \<open>
  C9 at a file that holds the single number 1. \<^verbatim>\<open>np.loadtxt\<close> gives an array of
  dimension zero, which the test \<^verbatim>\<open>len(ddgs.shape) == 1\<close> leaves as it is: with
  \<^verbatim>\<open>full=False\<close> the function raises \<^verbatim>\<open>IndexError\<close> instead of returning the first
  row, with a \<open>reslist\<close> of one entry it raises \<^verbatim>\<open>IndexError\<close> as well, and with
  \<^verbatim>\<open>full=True\<close> it returns the array of dimension zero. A file with the two
  numbers 1 and 2 on one line is read as the claim says.
\<close>

theorem parse_ddg_file_single_value:
  "parse_ddg_file (Some [[1 :: rat]]) (None :: string option) False = Inl IndexError
   \<and> parse_ddg_file (Some [[1 :: rat]]) (Some ''A'') False = Inl IndexError
   \<and> parse_ddg_file (Some [[1 :: rat]]) (None :: string option) True = Inr (Arr0 1)
   \<and> parse_ddg_file (Some [[1, 2 :: rat]]) (Some ''A'') False = Inr (Arr1 [1])
   \<and> parse_ddg_file (Some [[1, 2 :: rat]]) (Some ''A'') True = Inr (Arr2 1 [[1], [2]])
   \<and> parse_ddg_file (Some [[1, 2 :: rat]]) (Some ''AC'') True = Inl TypeError"
  by code_simp

section \<open>Properties of \<^verbatim>\<open>safe_cp\<close>\<close>

text \<open>
  C10, as the code has it. For an existing regular source file and a destination
  with another absolute path: with \<^verbatim>\<open>dolink=True\<close> an existing destination makes
  the function raise \<^verbatim>\<open>IOError\<close> and leaves the file system as it was; with
  \<^verbatim>\<open>dolink=False\<close> an existing destination is answered with a warning and the
  copy is attempted, and the function returns when \<^verbatim>\<open>shutil.copyfile\<close> returns and
  raises \<^verbatim>\<open>IOError\<close>, after an error-level entry, when it raises. When the two
  absolute paths are equal the function returns at once, whatever the source.
\<close>

theorem safe_cp_existing_destination:
  "(abspath os source \<noteq> abspath os destination \<and> path_exists os fs source
      \<and> path_isfile os fs source \<and> path_exists os fs destination \<longrightarrow>
        safe_cp os fs source destination True = (Inl IOError, fs, [LogError])
        \<and> safe_cp os fs source destination False =
            (if fst (copyfile os fs source destination)
             then (Inr (), snd (copyfile os fs source destination), [LogWarning])
             else (Inl IOError, snd (copyfile os fs source destination), [LogWarning, LogError])))
   \<and> (abspath os source = abspath os destination \<longrightarrow>
        safe_cp os fs source destination dolink = (Inr (), fs, []))"
  by (cases "copyfile os fs source destination") (auto simp: safe_cp_def Let_def)

theorem safe_cp_existing_destination_witness:
  "safe_cp flat_os [(''/a'', File ''x''), (''/b'', File ''y'')] ''/a'' ''/b'' True
     = (Inl IOError, [(''/a'', File ''x''), (''/b'', File ''y'')], [LogError])
   \<and> safe_cp flat_os [(''/a'', File ''x''), (''/b'', File ''y'')] ''/a'' ''/b'' False
     = (Inr (), [(''/b'', File ''x''), (''/a'', File ''x''), (''/b'', File ''y'')], [LogWarning])
   \<and> safe_cp flat_os [] ''/a'' ''/a'' True = (Inr (), [], [])"
proof -
  let ?fs = "[(''/a'', File ''x''), (''/b'', File ''y'')]"
  have h: "abspath flat_os ''/a'' \<noteq> abspath flat_os ''/b'' \<and> path_exists flat_os ?fs ''/a''
      \<and> path_isfile flat_os ?fs ''/a'' \<and> path_exists flat_os ?fs ''/b''"
    by (simp add: flat_os_def)
  have c: "copyfile flat_os ?fs ''/a'' ''/b'' = (True, (''/b'', File ''x'') # ?fs)"
    by (simp add: flat_os_def)
  have e: "abspath flat_os ''/a'' = abspath flat_os ''/a''" by simp
  from safe_cp_existing_destination [of flat_os "''/a''" "''/b''" ?fs] h c
  have "safe_cp flat_os ?fs ''/a'' ''/b'' True = (Inl IOError, ?fs, [LogError])
      \<and> safe_cp flat_os ?fs ''/a'' ''/b'' False = (Inr (), (''/b'', File ''x'') # ?fs, [LogWarning])"
    by simp
  moreover from safe_cp_existing_destination [of flat_os "''/a''" "''/a''" "[]" True] e
  have "safe_cp flat_os [] ''/a'' ''/a'' True = (Inr (), [], [])"
    by blast
  ultimately show ?thesis by simp
qed

text \<open>
  C10 as the specification words it fails when the existing destination is a
  directory: the source is a regular file, the paths differ, the destination
  exists, and with \<^verbatim>\<open>dolink=False\<close> the function logs the warning and then an
  error and raises \<^verbatim>\<open>IOError\<close>.
\<close>

theorem safe_cp_existing_destination_counterexample:
  "abspath flat_os ''/a'' \<noteq> abspath flat_os ''/d''
   \<and> path_exists flat_os [(''/a'', File ''x''), (''/d'', Dir)] ''/a''
   \<and> path_isfile flat_os [(''/a'', File ''x''), (''/d'', Dir)] ''/a''
   \<and> path_exists flat_os [(''/a'', File ''x''), (''/d'', Dir)] ''/d''
   \<and> safe_cp flat_os [(''/a'', File ''x''), (''/d'', Dir)] ''/a'' ''/d'' False
       = (Inl IOError, [(''/a'', File ''x''), (''/d'', Dir)], [LogWarning, LogError])"
  by (simp add: safe_cp_def flat_os_def)

end
